theory Spec2Isabelle
  imports Complex_Main "HOL-Library.Sublist"
begin

section \<open>Values of the dataset\<close>

text \<open>
  The dataset is what \<^verbatim>\<open>json.load\<close> returns: dictionaries, lists, strings, integers,
  booleans and \<^verbatim>\<open>None\<close>. A dictionary is an association list read through \<open>map_of\<close>.
  A string is a list of characters, one per character of the Python string. Numbers with
  a fraction are not part of this model.
\<close>

datatype json =
    JNull
  | JBool bool
  | JInt int
  | JStr string
  | JList "json list"
  | JObj "(string \<times> json) list"

text \<open>The exceptions the scripts can meet.\<close>

datatype error =
    TypeError
  | AttributeError
  | KeyError
  | ValueError string
  | EncodeError
  | UpsertError
  | StatsError
  | Neo4jError

subsection \<open>Python operations used by the scripts\<close>

text \<open>\<^verbatim>\<open>bool(v)\<close>, which is what \<^verbatim>\<open>filter(None, ...)\<close> tests.\<close>

fun truthy :: "json \<Rightarrow> bool" where
  "truthy JNull = False"
| "truthy (JBool b) = b"
| "truthy (JInt n) = (n \<noteq> 0)"
| "truthy (JStr s) = (s \<noteq> [])"
| "truthy (JList xs) = (xs \<noteq> [])"
| "truthy (JObj kvs) = (kvs \<noteq> [])"

fun is_str :: "json \<Rightarrow> bool" where
  "is_str (JStr s) = True"
| "is_str v = False"

fun the_str :: "json \<Rightarrow> string" where
  "the_str (JStr s) = s"
| "the_str v = []"

fun is_obj :: "json \<Rightarrow> bool" where
  "is_obj (JObj kvs) = True"
| "is_obj v = False"

text \<open>
  \<^verbatim>\<open>item.get(key, default)\<close>: only a dictionary has the method; on any other value the
  attribute lookup raises.
\<close>

fun py_get :: "json \<Rightarrow> string \<Rightarrow> json \<Rightarrow> error + json" where
  "py_get (JObj kvs) k d = (case map_of kvs k of Some v \<Rightarrow> Inr v | None \<Rightarrow> Inr d)"
| "py_get v k d = Inl AttributeError"

text \<open>\<^verbatim>\<open>sep.join(strings)\<close> on a list of strings.\<close>

fun join_strs :: "string \<Rightarrow> string list \<Rightarrow> string" where
  "join_strs sep [] = []"
| "join_strs sep [s] = s"
| "join_strs sep (s # t # ss) = s @ sep @ join_strs sep (t # ss)"

text \<open>\<^verbatim>\<open>sep.join(values)\<close>: an element that is not a string raises \<^verbatim>\<open>TypeError\<close>.\<close>

definition str_join :: "string \<Rightarrow> json list \<Rightarrow> error + string" where
  "str_join sep vs =
     (if list_all is_str vs then Inr (join_strs sep (map the_str vs)) else Inl TypeError)"

section \<open>Embedding text\<close>

definition create_embedding_text :: "json \<Rightarrow> error + string" where
  "create_embedding_text item =
     (case py_get item ''name'' (JStr '''') of Inl e \<Rightarrow> Inl e | Inr n \<Rightarrow>
      (case py_get item ''description'' (JStr '''') of Inl e \<Rightarrow> Inl e | Inr d \<Rightarrow>
       (case py_get item ''type'' (JStr '''') of Inl e \<Rightarrow> Inl e | Inr t \<Rightarrow>
          str_join '' '' (filter truthy [n, d, t]))))"

text \<open>
  The specification's reading of a record: the text of a field is its string, and a field
  that is missing (or holds an empty value such as \<^verbatim>\<open>null\<close>) has the empty text.
\<close>

definition field_text :: "(string \<times> json) list \<Rightarrow> string \<Rightarrow> string" where
  "field_text kvs k = (case map_of kvs k of Some (JStr s) \<Rightarrow> s | _ \<Rightarrow> [])"

text \<open>A field is textual when it is missing, a string, or an empty (falsy) value.\<close>

definition text_field :: "(string \<times> json) list \<Rightarrow> string \<Rightarrow> bool" where
  "text_field kvs k = (case map_of kvs k of None \<Rightarrow> True | Some v \<Rightarrow> is_str v \<or> \<not> truthy v)"

definition text_record :: "json \<Rightarrow> bool" where
  "text_record item =
     (case item of
        JObj kvs \<Rightarrow> text_field kvs ''name'' \<and> text_field kvs ''description'' \<and> text_field kvs ''type''
      | _ \<Rightarrow> False)"

text \<open>The specification's embedding text: the non-empty texts, in order, one space between.\<close>

definition spec_embedding_text :: "string \<Rightarrow> string \<Rightarrow> string \<Rightarrow> string" where
  "spec_embedding_text n d t =
     (if n = [] then (if d = [] then t else if t = [] then d else d @ '' '' @ t)
      else if d = [] then (if t = [] then n else n @ '' '' @ t)
      else if t = [] then n @ '' '' @ d
      else n @ '' '' @ d @ '' '' @ t)"

section \<open>Vector upload\<close>

text \<open>\<^verbatim>\<open>str\<close> of an integer: its decimal digits, with a sign when negative.\<close>

fun str_of_nat :: "nat \<Rightarrow> string" where
  "str_of_nat n =
     (if n < 10 then [''0123456789'' ! n]
      else str_of_nat (n div 10) @ [(''0123456789'' ! (n mod 10))])"

declare str_of_nat.simps [simp del]

definition str_of_int :: "int \<Rightarrow> string" where
  "str_of_int n = (if n < 0 then CHR ''-'' # str_of_nat (nat (- n)) else str_of_nat (nat n))"

text \<open>
  One element of the list handed to \<^verbatim>\<open>index.upsert\<close>: the dictionary with the keys
  \<^verbatim>\<open>id\<close>, \<^verbatim>\<open>values\<close> and \<^verbatim>\<open>metadata\<close>, the last one a dictionary of five keys.
\<close>

record metadata =
  meta_id :: json
  meta_name :: json
  meta_description :: json
  meta_type :: json
  meta_text :: string

record 'v vector_entry =
  entry_id :: string
  entry_values :: 'v
  entry_metadata :: metadata

text \<open>
  What the scripts take from outside: the embedding model, the vector index, Python's
  rendering of a list or dictionary as text, the index statistics and the clock of the
  graph store. A call that can fail returns its exception.
  \<^item> \<open>encode text\<close> is \<^verbatim>\<open>model.encode(text).tolist()\<close>;
  \<^item> \<open>upsert batch\<close> is \<^verbatim>\<open>index.upsert(vectors=batch)\<close>, \<open>None\<close> when it returns;
  \<^item> \<open>repr_of v\<close> is \<^verbatim>\<open>str(v)\<close> for a list or dictionary \<open>v\<close>;
  \<^item> \<open>index_stats\<close> is \<^verbatim>\<open>index.describe_index_stats()['total_vector_count']\<close>;
  \<^item> \<open>clock k\<close> is the value of \<^verbatim>\<open>datetime()\<close> in the transaction that follows \<open>k\<close>
    earlier transactions of the session.
\<close>

record 'v externals =
  encode :: "string \<Rightarrow> error + 'v"
  upsert :: "'v vector_entry list \<Rightarrow> error option"
  repr_of :: "json \<Rightarrow> string"
  index_stats :: "error + nat"
  clock :: "nat \<Rightarrow> int"

definition BATCH_SIZE :: nat where
  "BATCH_SIZE = 32"

text \<open>\<^verbatim>\<open>str(v)\<close>.\<close>

definition py_str :: "'v externals \<Rightarrow> json \<Rightarrow> string" where
  "py_str ext v =
     (case v of
        JStr s \<Rightarrow> s
      | JInt n \<Rightarrow> str_of_int n
      | JNull \<Rightarrow> ''None''
      | JBool b \<Rightarrow> (if b then ''True'' else ''False'')
      | _ \<Rightarrow> repr_of ext v)"

text \<open>
  The body of the loop of \<^verbatim>\<open>upload_to_pinecone\<close> up to the \<^verbatim>\<open>append\<close>: the entry built
  for the record \<open>item\<close> at position \<open>i\<close>. The embedding is computed from the whole text;
  only the copy kept in the metadata is cut (\<^verbatim>\<open>text[:1000]\<close>).
\<close>

definition prepare_vector :: "'v externals \<Rightarrow> nat \<Rightarrow> json \<Rightarrow> error + 'v vector_entry" where
  "prepare_vector ext i item =
     (case create_embedding_text item of Inl e \<Rightarrow> Inl e | Inr text \<Rightarrow>
      (case encode ext text of Inl e \<Rightarrow> Inl e | Inr embedding \<Rightarrow>
       (case py_get item ''id'' (JStr (str_of_nat i)) of Inl e \<Rightarrow> Inl e | Inr mid \<Rightarrow>
        (case py_get item ''name'' (JStr '''') of Inl e \<Rightarrow> Inl e | Inr mname \<Rightarrow>
         (case py_get item ''description'' (JStr '''') of Inl e \<Rightarrow> Inl e | Inr mdesc \<Rightarrow>
          (case py_get item ''type'' (JStr '''') of Inl e \<Rightarrow> Inl e | Inr mtype \<Rightarrow>
           (case py_get item ''id'' (JInt (int i)) of Inl e \<Rightarrow> Inl e | Inr vid \<Rightarrow>
              Inr \<lparr>entry_id = py_str ext vid,
                   entry_values = embedding,
                   entry_metadata =
                     \<lparr>meta_id = mid, meta_name = mname, meta_description = mdesc,
                      meta_type = mtype, meta_text = take 1000 text\<rparr>\<rparr>)))))))"

text \<open>
  The loop of \<^verbatim>\<open>upload_to_pinecone\<close> over the records that remain, from position \<open>i\<close>,
  with \<open>batch\<close> the current \<^verbatim>\<open>vectors_to_upload\<close> and \<open>calls\<close> the batches handed to
  \<^verbatim>\<open>index.upsert\<close> so far. The result is the calls made and either the exception that ended
  the loop or the batch left when the records are exhausted.
\<close>

fun pinecone_loop ::
  "'v externals \<Rightarrow> nat \<Rightarrow> json list \<Rightarrow> 'v vector_entry list \<Rightarrow> 'v vector_entry list list
     \<Rightarrow> 'v vector_entry list list \<times> (error + 'v vector_entry list)" where
  "pinecone_loop ext i [] batch calls = (calls, Inr batch)"
| "pinecone_loop ext i (item # rest) batch calls =
     (case prepare_vector ext i item of
        Inl e \<Rightarrow> (calls, Inl e)
      | Inr v \<Rightarrow>
          (if length (batch @ [v]) \<ge> BATCH_SIZE then
             (case upsert ext (batch @ [v]) of
                Some e \<Rightarrow> (calls @ [batch @ [v]], Inl e)
              | None \<Rightarrow> pinecone_loop ext (Suc i) rest [] (calls @ [batch @ [v]]))
           else pinecone_loop ext (Suc i) rest (batch @ [v]) calls))"

text \<open>
  \<^verbatim>\<open>upload_to_pinecone\<close>: the calls to \<^verbatim>\<open>index.upsert\<close>, in order, and the exception raised,
  if any.
\<close>

definition upload_to_pinecone ::
  "'v externals \<Rightarrow> json list \<Rightarrow> 'v vector_entry list list \<times> error option" where
  "upload_to_pinecone ext data =
     (case pinecone_loop ext 0 data [] [] of
        (calls, Inl e) \<Rightarrow> (calls, Some e)
      | (calls, Inr batch) \<Rightarrow>
          (if batch \<noteq> [] then (calls @ [batch], upsert ext batch) else (calls, None)))"

section \<open>Graph store\<close>

text \<open>
  The graph database is outside the repository; what is modelled of it is the meaning of
  the queries the scripts send. A node carries its labels and the five properties the
  queries write; a property that is absent is \<open>JNull\<close> (in Cypher a property set to
  \<^verbatim>\<open>null\<close> is removed). A node is known by its position in \<open>g_nodes\<close>: nodes are only
  ever appended, or all deleted at once.
\<close>

record node =
  n_labels :: "string list"
  prop_id :: json
  prop_name :: json
  prop_description :: json
  prop_type :: json
  prop_created_at :: "int option"

record edge =
  edge_src :: nat
  edge_dst :: nat
  edge_reltype :: string
  edge_type :: json

record graph =
  g_nodes :: "node list"
  g_edges :: "edge list"

text \<open>
  A query parameter reaches the store only if the driver can encode it: every integer in
  it has to fit 64 bits.
\<close>

fun sendable :: "json \<Rightarrow> bool" where
  "sendable JNull = True"
| "sendable (JBool b) = True"
| "sendable (JInt n) = (- (2 ^ 63) \<le> n \<and> n < 2 ^ 63)"
| "sendable (JStr s) = True"
| "sendable (JList xs) = (\<forall>x \<in> set xs. sendable x)"
| "sendable (JObj kvs) = (\<forall>v \<in> set (map snd kvs). sendable v)"

fun is_bool :: "json \<Rightarrow> bool" where
  "is_bool (JBool b) = True"
| "is_bool v = False"

fun is_int :: "json \<Rightarrow> bool" where
  "is_int (JInt n) = True"
| "is_int v = False"

text \<open>
  The values the store keeps as a property: a string, a boolean, an integer, or a list of
  values of one of these kinds. A map is never a property value.
\<close>

definition storable :: "json \<Rightarrow> bool" where
  "storable v =
     (case v of
        JNull \<Rightarrow> False
      | JBool b \<Rightarrow> True
      | JInt n \<Rightarrow> sendable v
      | JStr s \<Rightarrow> True
      | JList xs \<Rightarrow>
          list_all is_bool xs \<or> list_all (\<lambda>x. is_int x \<and> sendable x) xs \<or> list_all is_str xs
      | JObj kvs \<Rightarrow> False)"

definition has_label :: "string \<Rightarrow> node \<Rightarrow> bool" where
  "has_label l n = (l \<in> set (n_labels n))"

text \<open>
  The pattern \<^verbatim>\<open>(x:ServiceRule {id: $v})\<close>: the node has the label and its \<^verbatim>\<open>id\<close> equals
  the parameter. \<^verbatim>\<open>null\<close> equals nothing.
\<close>

definition matches :: "json \<Rightarrow> node \<Rightarrow> bool" where
  "matches v n = (has_label ''ServiceRule'' n \<and> v \<noteq> JNull \<and> prop_id n = v)"

definition match_service_rule :: "json \<Rightarrow> graph \<Rightarrow> nat list" where
  "match_service_rule v g = filter (\<lambda>i. matches v (g_nodes g ! i)) [0..<length (g_nodes g)]"

text \<open>\<^verbatim>\<open>MATCH (n) DETACH DELETE n\<close>.\<close>

definition clear_database :: "graph \<Rightarrow> error + graph" where
  "clear_database g = Inr \<lparr>g_nodes = [], g_edges = []\<rparr>"

text \<open>
  \<^verbatim>\<open>MERGE (n:ServiceRule {id: $id})\<close>: nothing changes when a node matches; otherwise one node
  with the label and the \<^verbatim>\<open>id\<close> is created. A \<^verbatim>\<open>null\<close> in the pattern, or a value that
  cannot be a property, is an error.
\<close>

definition merge_node :: "json \<Rightarrow> graph \<Rightarrow> error + graph" where
  "merge_node v g =
     (if v = JNull \<or> \<not> storable v then Inl Neo4jError
      else if match_service_rule v g = [] then
        Inr (g\<lparr>g_nodes := g_nodes g @
               [\<lparr>n_labels = [''ServiceRule''], prop_id = v, prop_name = JNull,
                 prop_description = JNull, prop_type = JNull, prop_created_at = None\<rparr>]\<rparr>)
      else Inr g)"

definition settable :: "json \<Rightarrow> bool" where
  "settable v = (v = JNull \<or> storable v)"

text \<open>The \<^verbatim>\<open>SET\<close> clause of the node query, on one node bound to \<open>n\<close>.\<close>

definition set_node :: "int \<Rightarrow> json \<Rightarrow> json \<Rightarrow> json \<Rightarrow> node \<Rightarrow> node" where
  "set_node now vname vdesc vtype n =
     n\<lparr>prop_name := vname, prop_description := vdesc, prop_type := vtype,
       prop_created_at := Some now\<rparr>"

text \<open>
  The query of \<^verbatim>\<open>create_node\<close>, with \<open>now\<close> the value of \<^verbatim>\<open>datetime()\<close>:
  \<^verbatim>\<open>MERGE (n:ServiceRule {id: $id}) SET n.name = $name, n.description = $description,
  n.type = $type, n.created_at = datetime()\<close>.
\<close>

definition run_node_query :: "int \<Rightarrow> json \<Rightarrow> json \<Rightarrow> json \<Rightarrow> json \<Rightarrow> graph \<Rightarrow> error + graph" where
  "run_node_query now vid vname vdesc vtype g =
     (if \<not> (sendable vid \<and> sendable vname \<and> sendable vdesc \<and> sendable vtype) then Inl Neo4jError
      else
        (case merge_node vid g of
           Inl e \<Rightarrow> Inl e
         | Inr g' \<Rightarrow>
             (if \<not> (settable vname \<and> settable vdesc \<and> settable vtype) then Inl Neo4jError
              else Inr (g'\<lparr>g_nodes :=
                     map (\<lambda>n. if matches vid n then set_node now vname vdesc vtype n else n)
                       (g_nodes g')\<rparr>))))"

definition create_node :: "int \<Rightarrow> json \<Rightarrow> graph \<Rightarrow> error + graph" where
  "create_node now item g =
     (case py_get item ''id'' (JStr '''') of Inl e \<Rightarrow> Inl e | Inr vid \<Rightarrow>
      (case py_get item ''name'' (JStr '''') of Inl e \<Rightarrow> Inl e | Inr vname \<Rightarrow>
       (case py_get item ''description'' (JStr '''') of Inl e \<Rightarrow> Inl e | Inr vdesc \<Rightarrow>
        (case py_get item ''type'' (JStr '''') of Inl e \<Rightarrow> Inl e | Inr vtype \<Rightarrow>
           run_node_query now vid vname vdesc vtype g))))"

text \<open>
  \<^verbatim>\<open>MERGE (a)-[:RELATED_TO {type: $relation_type}]->(b)\<close> for one pair of bound nodes: the
  edge is created unless one with this relationship type and this \<^verbatim>\<open>type\<close> property
  already joins them.
\<close>

definition merge_rel :: "json \<Rightarrow> nat \<times> nat \<Rightarrow> graph \<Rightarrow> error + graph" where
  "merge_rel t ab g =
     (if t = JNull \<or> \<not> storable t then Inl Neo4jError
      else if \<exists>e \<in> set (g_edges g).
                edge_src e = fst ab \<and> edge_dst e = snd ab \<and>
                edge_reltype e = ''RELATED_TO'' \<and> edge_type e = t
        then Inr g
      else Inr (g\<lparr>g_edges := g_edges g @
               [\<lparr>edge_src = fst ab, edge_dst = snd ab,
                 edge_reltype = ''RELATED_TO'', edge_type = t\<rparr>]\<rparr>))"

fun merge_rels :: "json \<Rightarrow> (nat \<times> nat) list \<Rightarrow> graph \<Rightarrow> error + graph" where
  "merge_rels t [] g = Inr g"
| "merge_rels t (ab # rows) g =
     (case merge_rel t ab g of Inl e \<Rightarrow> Inl e | Inr g' \<Rightarrow> merge_rels t rows g')"

text \<open>
  The query of \<^verbatim>\<open>create_relationships\<close>: the two \<^verbatim>\<open>MATCH\<close> clauses give one row for every
  pair of a node matching \<^verbatim>\<open>$from_id\<close> and a node matching \<^verbatim>\<open>$to_id\<close>, and the \<^verbatim>\<open>MERGE\<close>
  runs once per row. With no row nothing runs.
\<close>

definition run_relationship_query :: "json \<Rightarrow> json \<Rightarrow> json \<Rightarrow> graph \<Rightarrow> error + graph" where
  "run_relationship_query from_id to_id relation_type g =
     (if \<not> (sendable from_id \<and> sendable to_id \<and> sendable relation_type) then Inl Neo4jError
      else merge_rels relation_type
             (List.product (match_service_rule from_id g) (match_service_rule to_id g)) g)"

text \<open>\<^verbatim>\<open>key in v\<close>, \<^verbatim>\<open>v[key]\<close> and \<^verbatim>\<open>for x in v\<close> for a string key.\<close>

fun py_in :: "string \<Rightarrow> json \<Rightarrow> error + bool" where
  "py_in k (JObj kvs) = Inr (map_of kvs k \<noteq> None)"
| "py_in k (JList xs) = Inr (JStr k \<in> set xs)"
| "py_in k (JStr s) = Inr (sublist k s)"
| "py_in k v = Inl TypeError"

fun py_getitem :: "json \<Rightarrow> string \<Rightarrow> error + json" where
  "py_getitem (JObj kvs) k = (case map_of kvs k of Some v \<Rightarrow> Inr v | None \<Rightarrow> Inl KeyError)"
| "py_getitem v k = Inl TypeError"

fun py_iter :: "json \<Rightarrow> error + json list" where
  "py_iter (JList xs) = Inr xs"
| "py_iter (JStr s) = Inr (map (\<lambda>c. JStr [c]) s)"
| "py_iter (JObj kvs) = Inr (map JStr (remdups (map fst kvs)))"
| "py_iter v = Inl TypeError"

text \<open>The \<^verbatim>\<open>for connection in item['connections']\<close> loop of \<^verbatim>\<open>create_relationships\<close>.\<close>

fun connections_loop :: "json \<Rightarrow> json list \<Rightarrow> graph \<Rightarrow> error + graph" where
  "connections_loop item [] g = Inr g"
| "connections_loop item (connection # rest) g =
     (case py_get item ''id'' (JStr '''') of Inl e \<Rightarrow> Inl e | Inr from_id \<Rightarrow>
      (case py_get connection ''id'' (JStr '''') of Inl e \<Rightarrow> Inl e | Inr to_id \<Rightarrow>
       (case py_get connection ''type'' (JStr ''RELATED'') of Inl e \<Rightarrow> Inl e | Inr relation_type \<Rightarrow>
        (case run_relationship_query from_id to_id relation_type g of
           Inl e \<Rightarrow> Inl e
         | Inr g' \<Rightarrow> connections_loop item rest g'))))"

definition create_relationships :: "json \<Rightarrow> graph \<Rightarrow> error + graph" where
  "create_relationships item g =
     (case py_in ''connections'' item of
        Inl e \<Rightarrow> Inl e
      | Inr present \<Rightarrow>
          (if present then
             (case py_getitem item ''connections'' of
                Inl e \<Rightarrow> Inl e
              | Inr cs \<Rightarrow>
                  (case py_iter cs of Inl e \<Rightarrow> Inl e | Inr conns \<Rightarrow> connections_loop item conns g))
           else Inr g))"

subsection \<open>Session and transactions\<close>

text \<open>
  A unit of work handed to \<^verbatim>\<open>session.write_transaction\<close>, with its argument. The session
  keeps the store and the list of the transactions run so far, each with whether it was
  committed. A unit of work that raises is rolled back: the store stays as it was and the
  exception goes on to the caller.
\<close>

datatype txfn = ClearDatabase | CreateNode json | CreateRelationships json

record session =
  store :: graph
  txlog :: "(txfn \<times> bool) list"

definition run_txfn :: "'v externals \<Rightarrow> session \<Rightarrow> txfn \<Rightarrow> error + graph" where
  "run_txfn ext s fn =
     (case fn of
        ClearDatabase \<Rightarrow> clear_database (store s)
      | CreateNode item \<Rightarrow> create_node (clock ext (length (txlog s))) item (store s)
      | CreateRelationships item \<Rightarrow> create_relationships item (store s))"

definition write_transaction :: "'v externals \<Rightarrow> txfn \<Rightarrow> session \<Rightarrow> session \<times> error option" where
  "write_transaction ext fn s =
     (case run_txfn ext s fn of
        Inl e \<Rightarrow> (s\<lparr>txlog := txlog s @ [(fn, False)]\<rparr>, Some e)
      | Inr g \<Rightarrow> (s\<lparr>store := g, txlog := txlog s @ [(fn, True)]\<rparr>, None))"

text \<open>The two loops of \<^verbatim>\<open>upload_to_neo4j\<close>.\<close>

fun create_nodes_loop :: "'v externals \<Rightarrow> json list \<Rightarrow> session \<Rightarrow> session \<times> error option" where
  "create_nodes_loop ext [] s = (s, None)"
| "create_nodes_loop ext (item # rest) s =
     (case write_transaction ext (CreateNode item) s of
        (s', Some e) \<Rightarrow> (s', Some e)
      | (s', None) \<Rightarrow> create_nodes_loop ext rest s')"

fun create_relationships_loop :: "'v externals \<Rightarrow> json list \<Rightarrow> session \<Rightarrow> session \<times> error option" where
  "create_relationships_loop ext [] s = (s, None)"
| "create_relationships_loop ext (item # rest) s =
     (case write_transaction ext (CreateRelationships item) s of
        (s', Some e) \<Rightarrow> (s', Some e)
      | (s', None) \<Rightarrow> create_relationships_loop ext rest s')"

text \<open>\<^verbatim>\<open>upload_to_neo4j\<close>, in a new session on the store \<open>g\<close>.\<close>

definition upload_to_neo4j :: "'v externals \<Rightarrow> json list \<Rightarrow> graph \<Rightarrow> session \<times> error option" where
  "upload_to_neo4j ext data g =
     (case write_transaction ext ClearDatabase \<lparr>store = g, txlog = []\<rparr> of
        (s1, Some e) \<Rightarrow> (s1, Some e)
      | (s1, None) \<Rightarrow>
          (case create_nodes_loop ext data s1 of
             (s2, Some e) \<Rightarrow> (s2, Some e)
           | (s2, None) \<Rightarrow> create_relationships_loop ext data s2))"

text \<open>Which loop of \<^verbatim>\<open>upload_to_neo4j\<close> a transaction belongs to.\<close>

fun is_node_tx :: "txfn \<Rightarrow> bool" where
  "is_node_tx (CreateNode item) = True"
| "is_node_tx fn = False"

fun is_rel_tx :: "txfn \<Rightarrow> bool" where
  "is_rel_tx (CreateRelationships item) = True"
| "is_rel_tx fn = False"

definition empty_graph :: graph where
  "empty_graph = \<lparr>g_nodes = [], g_edges = []\<rparr>"

section \<open>The main block of the upload script\<close>

text \<open>
  What the \<^verbatim>\<open>try\<close> block, its handler and its \<^verbatim>\<open>finally\<close> clause do at the top level, in
  order: the counts printed by the verification, the two prints of the handler, and the
  closing of the driver.
\<close>

datatype main_event =
    VectorCount nat
  | NodeCount nat
  | Completed nat
  | ErrorPrinted error
  | TracebackPrinted error
  | DriverClosed

record 'v run =
  vector_calls :: "'v vector_entry list list"
  final_store :: graph
  transactions :: "(txfn \<times> bool) list"
  events :: "main_event list"

fun is_error_printed :: "main_event \<Rightarrow> bool" where
  "is_error_printed (ErrorPrinted e) = True"
| "is_error_printed ev = False"

text \<open>\<^verbatim>\<open>MATCH (n:ServiceRule) RETURN count(n) as count\<close>.\<close>

definition count_service_rules :: "graph \<Rightarrow> nat" where
  "count_service_rules g = length (filter (has_label ''ServiceRule'') (g_nodes g))"

text \<open>The body of the \<^verbatim>\<open>try\<close> block: the run so far and the exception that left it, if any.\<close>

definition try_block :: "'v externals \<Rightarrow> json list \<Rightarrow> graph \<Rightarrow> 'v run \<times> error option" where
  "try_block ext data g =
     (case upload_to_pinecone ext data of
        (calls, Some e) \<Rightarrow>
          (\<lparr>vector_calls = calls, final_store = g, transactions = [], events = []\<rparr>, Some e)
      | (calls, None) \<Rightarrow>
          (case upload_to_neo4j ext data g of
             (s, Some e) \<Rightarrow>
               (\<lparr>vector_calls = calls, final_store = store s, transactions = txlog s,
                 events = []\<rparr>, Some e)
           | (s, None) \<Rightarrow>
               (case index_stats ext of
                  Inl e \<Rightarrow>
                    (\<lparr>vector_calls = calls, final_store = store s, transactions = txlog s,
                      events = []\<rparr>, Some e)
                | Inr total_vector_count \<Rightarrow>
                    (\<lparr>vector_calls = calls, final_store = store s, transactions = txlog s,
                      events = [VectorCount total_vector_count,
                                NodeCount (count_service_rules (store s)),
                                Completed (length data)]\<rparr>, None))))"

text \<open>
  \<^verbatim>\<open>try: ... except Exception as e: print(...); traceback.print_exc() finally: driver.close()\<close>.
\<close>

definition main :: "'v externals \<Rightarrow> json list \<Rightarrow> graph \<Rightarrow> 'v run" where
  "main ext data g =
     (case try_block ext data g of
        (r, Some e) \<Rightarrow> r\<lparr>events := events r @ [ErrorPrinted e, TracebackPrinted e] @ [DriverClosed]\<rparr>
      | (r, None) \<Rightarrow> r\<lparr>events := events r @ [DriverClosed]\<rparr>)"

section \<open>The verification script\<close>

text \<open>
  The three queries of \<^verbatim>\<open>verify_upload.py\<close>. The last one,
  \<^verbatim>\<open>MATCH (n:Entity) RETURN n.type as node_type, count(n) as count ORDER BY count DESC LIMIT 10\<close>,
  groups the nodes labelled \<^verbatim>\<open>Entity\<close> by their \<^verbatim>\<open>type\<close>; groups are taken in the order
  of their first node, and the sort keeps that order among equal counts.
\<close>

definition count_nodes :: "graph \<Rightarrow> nat" where
  "count_nodes g = length (g_nodes g)"

definition count_relationships :: "graph \<Rightarrow> nat" where
  "count_relationships g = length (g_edges g)"

definition type_counts :: "string \<Rightarrow> graph \<Rightarrow> (json \<times> nat) list" where
  "type_counts label g =
     (let ts = map prop_type (filter (has_label label) (g_nodes g))
      in map (\<lambda>t. (t, count_list ts t)) (rev (remdups (rev ts))))"

definition node_types :: "graph \<Rightarrow> (json \<times> nat) list" where
  "node_types g = take 10 (sort_key (\<lambda>r. - int (snd r)) (type_counts ''Entity'' g))"

record report =
  total_nodes :: nat
  total_relationships :: nat
  node_type_rows :: "(json \<times> nat) list"

definition verify_upload :: "graph \<Rightarrow> report" where
  "verify_upload g =
     \<lparr>total_nodes = count_nodes g,
      total_relationships = count_relationships g,
      node_type_rows = node_types g\<rparr>"

section \<open>Configuration\<close>

text \<open>
  The settings of \<^verbatim>\<open>config.py\<close> that are strings. \<^verbatim>\<open>os.getenv(name, default)\<close> reads the
  environment, a map from names to strings.
\<close>

record config =
  NEO4J_URI :: string
  NEO4J_USER :: string
  NEO4J_PASSWORD :: string
  PINECONE_API_KEY :: string
  PINECONE_HOST :: string
  LLM_PROVIDER :: string
  OPENAI_API_KEY :: string
  HUGGINGFACE_API_KEY :: string
  PINECONE_INDEX_NAME :: string
  API_HOST :: string

definition getenv :: "(string \<rightharpoonup> string) \<Rightarrow> string \<Rightarrow> string \<Rightarrow> string" where
  "getenv env name dflt = (case env name of Some v \<Rightarrow> v | None \<Rightarrow> dflt)"

definition load_config :: "(string \<rightharpoonup> string) \<Rightarrow> config" where
  "load_config env =
     \<lparr>NEO4J_URI = getenv env ''NEO4J_URI'' ''neo4j+s://your-neo4j-uri.databases.neo4j.io'',
      NEO4J_USER = getenv env ''NEO4J_USER'' ''neo4j'',
      NEO4J_PASSWORD = getenv env ''NEO4J_PASSWORD'' '''',
      PINECONE_API_KEY = getenv env ''PINECONE_API_KEY'' '''',
      PINECONE_HOST = getenv env ''PINECONE_HOST'' '''',
      LLM_PROVIDER = getenv env ''LLM_PROVIDER'' ''huggingface'',
      OPENAI_API_KEY = getenv env ''OPENAI_API_KEY'' '''',
      HUGGINGFACE_API_KEY = getenv env ''HUGGINGFACE_API_KEY'' '''',
      PINECONE_INDEX_NAME = getenv env ''PINECONE_INDEX_NAME'' ''sikkim-service-rule'',
      API_HOST = getenv env ''API_HOST'' ''0.0.0.0''\<rparr>"

text \<open>The list \<^verbatim>\<open>errors\<close> of \<^verbatim>\<open>validate_config\<close> after its four checks.\<close>

definition config_errors :: "config \<Rightarrow> string list" where
  "config_errors c =
     (let errors = [];
          errors = (if PINECONE_API_KEY c = [] \<or> PINECONE_API_KEY c = ''''
                    then errors @ [''PINECONE_API_KEY is not set''] else errors);
          errors = (if NEO4J_PASSWORD c = [] \<or> NEO4J_PASSWORD c = ''''
                    then errors @ [''NEO4J_PASSWORD is not set''] else errors);
          errors = (if LLM_PROVIDER c = ''openai'' \<and> (OPENAI_API_KEY c = [] \<or> OPENAI_API_KEY c = '''')
                    then errors @ [''OPENAI_API_KEY is not set (LLM_PROVIDER=openai)'']
                    else if LLM_PROVIDER c = ''huggingface'' \<and>
                            (HUGGINGFACE_API_KEY c = [] \<or> HUGGINGFACE_API_KEY c = '''')
                    then errors @ [''HUGGINGFACE_API_KEY is not set (LLM_PROVIDER=huggingface)'']
                    else errors);
          errors = (if sublist ''your-neo4j-uri'' (NEO4J_URI c)
                    then errors @ [''NEO4J_URI is not properly configured''] else errors)
      in errors)"

text \<open>
  The message of the \<^verbatim>\<open>ValueError\<close>:
  \<^verbatim>\<open>"Configuration errors:\n" + "\n".join(f"  - {e}" for e in errors)\<close>.
\<close>

definition error_msg :: "string list \<Rightarrow> string" where
  "error_msg errors =
     ''Configuration errors:'' @ [CHR 0x0A] @ join_strs [CHR 0x0A] (map (\<lambda>e. ''  - '' @ e) errors)"

definition validate_config :: "config \<Rightarrow> error + bool" where
  "validate_config c =
     (if config_errors c \<noteq> [] then Inl (ValueError (error_msg (config_errors c))) else Inr True)"

text \<open>
  The checks as the specification counts them: one message for each mandatory setting
  that is missing or left at its placeholder, in the order of the checks.
\<close>

definition provider_credential_missing :: "config \<Rightarrow> bool" where
  "provider_credential_missing c =
     ((LLM_PROVIDER c = ''openai'' \<and> OPENAI_API_KEY c = []) \<or>
      (LLM_PROVIDER c = ''huggingface'' \<and> HUGGINGFACE_API_KEY c = []))"

definition failed_checks :: "config \<Rightarrow> string list" where
  "failed_checks c =
     (if PINECONE_API_KEY c = [] then [''PINECONE_API_KEY is not set''] else []) @
     (if NEO4J_PASSWORD c = [] then [''NEO4J_PASSWORD is not set''] else []) @
     (if LLM_PROVIDER c = ''openai'' \<and> OPENAI_API_KEY c = []
      then [''OPENAI_API_KEY is not set (LLM_PROVIDER=openai)'']
      else if LLM_PROVIDER c = ''huggingface'' \<and> HUGGINGFACE_API_KEY c = []
      then [''HUGGINGFACE_API_KEY is not set (LLM_PROVIDER=huggingface)'']
      else []) @
     (if sublist ''your-neo4j-uri'' (NEO4J_URI c)
      then [''NEO4J_URI is not properly configured''] else [])"

definition mandatory_ok :: "config \<Rightarrow> bool" where
  "mandatory_ok c =
     (PINECONE_API_KEY c \<noteq> [] \<and> NEO4J_PASSWORD c \<noteq> [] \<and> \<not> provider_credential_missing c \<and>
      \<not> sublist ''your-neo4j-uri'' (NEO4J_URI c))"

section \<open>Notions used to state the properties of the graph upload\<close>

text \<open>
  What a record or a connection gives for a key: the field, or the default of the
  \<^verbatim>\<open>get\<close>.
\<close>

definition field_or :: "json \<Rightarrow> string \<Rightarrow> json \<Rightarrow> json" where
  "field_or v k d =
     (case v of JObj kvs \<Rightarrow> (case map_of kvs k of Some x \<Rightarrow> x | None \<Rightarrow> d) | _ \<Rightarrow> d)"

text \<open>
  A connection entry of the record \<open>item\<close> that points at no node of the graph: the entry
  is a dictionary, the three parameters of its query can be encoded by the driver, and
  its \<^verbatim>\<open>id\<close> matches no \<^verbatim>\<open>ServiceRule\<close> node.
\<close>

definition dangling_entry :: "graph \<Rightarrow> json \<Rightarrow> json \<Rightarrow> bool" where
  "dangling_entry g item c =
     (is_obj item \<and> is_obj c \<and>
      sendable (field_or item ''id'' (JStr '''')) \<and>
      sendable (field_or c ''id'' (JStr '''')) \<and>
      sendable (field_or c ''type'' (JStr ''RELATED'')) \<and>
      match_service_rule (field_or c ''id'' (JStr '''')) g = [])"

text \<open>What the node query of a record does to one node, at time \<open>now\<close>.\<close>

definition node_update :: "int \<Rightarrow> json \<Rightarrow> node \<Rightarrow> node" where
  "node_update now item n =
     (if matches (field_or item ''id'' (JStr '''')) n
      then set_node now (field_or item ''name'' (JStr '''')) (field_or item ''description'' (JStr ''''))
             (field_or item ''type'' (JStr '''')) n
      else n)"

fun apply_updates :: "(int \<times> json) list \<Rightarrow> node \<Rightarrow> node" where
  "apply_updates [] n = n"
| "apply_updates (tx # txs) n = apply_updates txs (node_update (fst tx) (snd tx) n)"

text \<open>A node without its time of writing: its labels, id, name, description and type.\<close>

definition without_time :: "node \<Rightarrow> node" where
  "without_time n = n\<lparr>prop_created_at := None\<rparr>"

text \<open>
  A node is settled for a list of records, given last record first, when it carries the
  name, description and type of the latest record whose id it matches.
\<close>

fun settled_rev :: "json list \<Rightarrow> node \<Rightarrow> bool" where
  "settled_rev [] n = True"
| "settled_rev (item # earlier) n =
     (if matches (field_or item ''id'' (JStr '''')) n
      then prop_name n = field_or item ''name'' (JStr '''') \<and>
           prop_description n = field_or item ''description'' (JStr '''') \<and>
           prop_type n = field_or item ''type'' (JStr '''')
      else settled_rev earlier n)"

definition settled :: "json list \<Rightarrow> node \<Rightarrow> bool" where
  "settled items n = settled_rev (rev items) n"

text \<open>No two \<^verbatim>\<open>ServiceRule\<close> nodes have the same id.\<close>

definition unique_ids :: "graph \<Rightarrow> bool" where
  "unique_ids g = distinct (map prop_id (filter (has_label ''ServiceRule'') (g_nodes g)))"

section \<open>Sample inputs\<close>

text \<open>
  Externals for worked examples: the embedding of a text is its length, every upsert is
  accepted, and the clock of the store counts transactions.
\<close>

definition sample_externals :: "nat externals" where
  "sample_externals =
     \<lparr>encode = (\<lambda>t. Inr (length t)), upsert = (\<lambda>b. None), repr_of = (\<lambda>v. []),
      index_stats = Inr 2, clock = (\<lambda>k. int k)\<rparr>"

text \<open>The two records of the end-to-end scenario of the specification.\<close>

definition sample_data :: "json list" where
  "sample_data =
     [JObj [(''id'', JStr ''1''), (''name'', JStr ''A''), (''description'', JStr ''d1''),
            (''type'', JStr ''t1''),
            (''connections'', JList [JObj [(''id'', JStr ''2''), (''type'', JStr ''NEXT'')]])],
      JObj [(''id'', JStr ''2''), (''name'', JStr ''B''), (''description'', JStr ''d2''),
            (''type'', JStr ''t2'')]]"

text \<open>A record whose embedding text has 1001 characters.\<close>

definition long_record :: json where
  "long_record = JObj [(''id'', JStr ''r1''), (''name'', JStr (replicate 1001 CHR ''a''))]"

text \<open>An environment with every mandatory setting, and the same without the password.\<close>

definition full_env :: "(string \<times> string) list" where
  "full_env =
     [(''PINECONE_API_KEY'', ''pk''), (''NEO4J_PASSWORD'', ''pw''),
      (''HUGGINGFACE_API_KEY'', ''hf''), (''NEO4J_URI'', ''neo4j+s://db.example.io'')]"

definition no_password_env :: "(string \<times> string) list" where
  "no_password_env =
     [(''PINECONE_API_KEY'', ''pk''),
      (''HUGGINGFACE_API_KEY'', ''hf''), (''NEO4J_URI'', ''neo4j+s://db.example.io'')]"

text \<open>The store after the node loop on the two sample records, before any edge.\<close>

definition sample_graph :: graph where
  "sample_graph =
     \<lparr>g_nodes =
        [\<lparr>n_labels = [''ServiceRule''], prop_id = JStr ''1'', prop_name = JStr ''A'',
          prop_description = JStr ''d1'', prop_type = JStr ''t1'', prop_created_at = Some 1\<rparr>,
         \<lparr>n_labels = [''ServiceRule''], prop_id = JStr ''2'', prop_name = JStr ''B'',
          prop_description = JStr ''d2'', prop_type = JStr ''t2'', prop_created_at = Some 2\<rparr>],
      g_edges = []\<rparr>"

text \<open>
  A record with two connections: the first names an id that no node has, the second
  names the second sample record and gives no type.
\<close>

definition dangling_record :: json where
  "dangling_record =
     JObj [(''id'', JStr ''1''),
           (''connections'',
            JList [JObj [(''id'', JStr ''9''), (''type'', JStr ''NEXT'')],
                   JObj [(''id'', JStr ''2'')]])]"

text \<open>
  A record without an id whose one connection has neither id nor type, and a store whose
  one node has the empty string as its id.
\<close>

definition anonymous_record :: json where
  "anonymous_record = JObj [(''connections'', JList [JObj []])]"

definition anonymous_graph :: graph where
  "anonymous_graph =
     \<lparr>g_nodes =
        [\<lparr>n_labels = [''ServiceRule''], prop_id = JStr [], prop_name = JStr [],
          prop_description = JStr [], prop_type = JStr [], prop_created_at = Some 1\<rparr>],
      g_edges = []\<rparr>"

text \<open>A record whose id is \<^verbatim>\<open>null\<close>: its node query is rejected by the store.\<close>

definition null_id_record :: json where
  "null_id_record = JObj [(''id'', JNull), (''name'', JStr ''N'')]"

text \<open>A new session on an empty store.\<close>

definition fresh_session :: session where
  "fresh_session = \<lparr>store = empty_graph, txlog = []\<rparr>"

section \<open>Embedding text: properties\<close>

lemma py_get_text_field:
  assumes "text_field kvs k"
  shows "\<exists>v. py_get (JObj kvs) k (JStr []) = Inr v \<and>
     filter truthy [v] = map JStr (filter (\<lambda>s. s \<noteq> []) [field_text kvs k])"
proof (cases "map_of kvs k")
  case None
  then show ?thesis by (simp add: field_text_def)
next
  case (Some v)
  with assms have "is_str v \<or> \<not> truthy v" by (simp add: text_field_def)
  with Some show ?thesis by (cases v) (simp_all add: field_text_def)
qed

lemma str_join_strs: "str_join sep (map JStr ss) = Inr (join_strs sep ss)"
proof -
  have "list_all is_str (map JStr ss)" by (induction ss) simp_all
  moreover have "map the_str (map JStr ss) = ss" by (induction ss) simp_all
  ultimately show ?thesis by (simp add: str_join_def)
qed

lemma create_embedding_text_text_record:
  assumes "text_record item"
  shows "\<exists>kvs. item = JObj kvs \<and>
     create_embedding_text item =
       Inr (join_strs '' ''
             (filter (\<lambda>s. s \<noteq> [])
                [field_text kvs ''name'', field_text kvs ''description'', field_text kvs ''type'']))"
proof -
  from assms obtain kvs where item: "item = JObj kvs"
    and tf: "text_field kvs ''name''" "text_field kvs ''description''" "text_field kvs ''type''"
    by (cases item) (simp_all add: text_record_def)
  from py_get_text_field[OF tf(1)] obtain n where
    n: "py_get (JObj kvs) ''name'' (JStr []) = Inr n"
       "filter truthy [n] = map JStr (filter (\<lambda>s. s \<noteq> []) [field_text kvs ''name''])"
    by (elim exE conjE)
  from py_get_text_field[OF tf(2)] obtain d where
    d: "py_get (JObj kvs) ''description'' (JStr []) = Inr d"
       "filter truthy [d] = map JStr (filter (\<lambda>s. s \<noteq> []) [field_text kvs ''description''])"
    by (elim exE conjE)
  from py_get_text_field[OF tf(3)] obtain t where
    t: "py_get (JObj kvs) ''type'' (JStr []) = Inr t"
       "filter truthy [t] = map JStr (filter (\<lambda>s. s \<noteq> []) [field_text kvs ''type''])"
    by (elim exE conjE)
  have "filter truthy [n, d, t] = filter truthy [n] @ filter truthy [d] @ filter truthy [t]"
    by simp
  also have "\<dots> = map JStr (filter (\<lambda>s. s \<noteq> [])
       [field_text kvs ''name'', field_text kvs ''description'', field_text kvs ''type''])"
    unfolding n(2) d(2) t(2) by simp
  finally have f: "filter truthy [n, d, t] = map JStr (filter (\<lambda>s. s \<noteq> [])
       [field_text kvs ''name'', field_text kvs ''description'', field_text kvs ''type''])" .
  have "create_embedding_text (JObj kvs) = str_join '' '' (filter truthy [n, d, t])"
    unfolding create_embedding_text_def n(1) d(1) t(1) by simp
  then have "create_embedding_text item = Inr (join_strs '' ''
             (filter (\<lambda>s. s \<noteq> [])
                [field_text kvs ''name'', field_text kvs ''description'', field_text kvs ''type'']))"
    unfolding f str_join_strs item .
  with item show ?thesis by (intro exI[of _ kvs] conjI)
qed

lemma spec_embedding_text_join:
  "spec_embedding_text n d t = join_strs '' '' (filter (\<lambda>s. s \<noteq> []) [n, d, t])"
  by (simp add: spec_embedding_text_def)

text \<open>A field that holds a non-empty value other than a string makes the join raise.\<close>

lemma create_embedding_text_not_text:
  assumes "map_of kvs ''name'' = Some v" and "truthy v" and "\<not> is_str v"
  shows "create_embedding_text (JObj kvs) = Inl TypeError"
  using assms
  by (simp add: create_embedding_text_def str_join_def split: option.splits)

text \<open>
  C2. For every record whose \<^verbatim>\<open>name\<close>, \<^verbatim>\<open>description\<close> and \<^verbatim>\<open>type\<close> are text (a string,
  or missing, or an empty value), \<^verbatim>\<open>create_embedding_text\<close> returns the non-empty texts
  among name, description and type, in that order, joined by single spaces; when all
  three are empty or missing the result is the empty string.
\<close>

theorem create_embedding_text_spec:
  assumes "text_record item"
  shows "\<exists>kvs. item = JObj kvs \<and>
     create_embedding_text item =
       Inr (join_strs '' ''
             (filter (\<lambda>s. s \<noteq> [])
                [field_text kvs ''name'', field_text kvs ''description'', field_text kvs ''type''])) \<and>
     create_embedding_text item =
       Inr (spec_embedding_text (field_text kvs ''name'') (field_text kvs ''description'')
              (field_text kvs ''type'')) \<and>
     (field_text kvs ''name'' = [] \<and> field_text kvs ''description'' = [] \<and>
      field_text kvs ''type'' = [] \<longrightarrow> create_embedding_text item = Inr [])"
proof -
  from create_embedding_text_text_record[OF assms] obtain kvs where
    kvs: "item = JObj kvs"
      "create_embedding_text item =
       Inr (join_strs '' ''
             (filter (\<lambda>s. s \<noteq> [])
                [field_text kvs ''name'', field_text kvs ''description'', field_text kvs ''type'']))"
    by (elim exE conjE)
  have s: "create_embedding_text item =
       Inr (spec_embedding_text (field_text kvs ''name'') (field_text kvs ''description'')
              (field_text kvs ''type''))"
    by (simp only: kvs(2) spec_embedding_text_join)
  have e: "field_text kvs ''name'' = [] \<and> field_text kvs ''description'' = [] \<and>
      field_text kvs ''type'' = [] \<longrightarrow> create_embedding_text item = Inr []"
    by (simp add: kvs(2))
  show ?thesis
    by (rule exI[of _ kvs]) (intro conjI kvs(1) kvs(2) s e)
qed

theorem create_embedding_text_spec_witness:
  "text_record (JObj [(''name'', JStr ''A''), (''description'', JStr []), (''type'', JStr ''t1'')]) \<and>
   create_embedding_text
     (JObj [(''name'', JStr ''A''), (''description'', JStr []), (''type'', JStr ''t1'')]) = Inr ''A t1''"
proof -
  have h: "text_record (JObj [(''name'', JStr ''A''), (''description'', JStr []), (''type'', JStr ''t1'')])"
    by (simp add: text_record_def text_field_def)
  from create_embedding_text_spec[OF h] obtain kvs where
    k: "JObj [(''name'', JStr ''A''), (''description'', JStr []), (''type'', JStr ''t1'')] = JObj kvs"
    and c: "create_embedding_text
        (JObj [(''name'', JStr ''A''), (''description'', JStr []), (''type'', JStr ''t1'')]) =
       Inr (join_strs '' ''
             (filter (\<lambda>s. s \<noteq> [])
                [field_text kvs ''name'', field_text kvs ''description'', field_text kvs ''type'']))"
    by (elim exE conjE)
  from k have kvs: "kvs = [(''name'', JStr ''A''), (''description'', JStr []), (''type'', JStr ''t1'')]"
    by simp
  have "create_embedding_text
        (JObj [(''name'', JStr ''A''), (''description'', JStr []), (''type'', JStr ''t1'')]) = Inr ''A t1''"
    unfolding c kvs by (simp add: field_text_def)
  with h show ?thesis by (rule conjI)
qed

section \<open>Vector upload: properties\<close>

lemma pinecone_loop_ok:
  assumes "pinecone_loop ext i items batch calls = (cs, Inr b)" and "length batch < BATCH_SIZE"
  shows "\<exists>es news. length es = length items
      \<and> (\<forall>k<length items. prepare_vector ext (i + k) (items ! k) = Inr (es ! k))
      \<and> cs = calls @ news
      \<and> concat news @ b = batch @ es
      \<and> length b = (length batch + length items) mod BATCH_SIZE
      \<and> length news = (length batch + length items) div BATCH_SIZE
      \<and> (\<forall>c\<in>set news. length c = BATCH_SIZE \<and> upsert ext c = None)"
  using assms
proof (induction items arbitrary: i batch calls)
  case Nil
  then show ?case by simp
next
  case (Cons item rest)
  from Cons.prems(1) obtain v where v: "prepare_vector ext i item = Inr v"
    by (cases "prepare_vector ext i item") auto
  show ?case
  proof (cases "length (batch @ [v]) \<ge> BATCH_SIZE")
    case True
    with Cons.prems(2) have full: "length (batch @ [v]) = BATCH_SIZE" by simp
    from Cons.prems(1) v True have ok: "upsert ext (batch @ [v]) = None"
      and rec: "pinecone_loop ext (Suc i) rest [] (calls @ [batch @ [v]]) = (cs, Inr b)"
      by (auto split: option.splits)
    have "length ([]::'a vector_entry list) < BATCH_SIZE" by (simp add: BATCH_SIZE_def)
    from Cons.IH[OF rec this] obtain es news where
      IH: "length es = length rest"
        "\<forall>k<length rest. prepare_vector ext (Suc i + k) (rest ! k) = Inr (es ! k)"
        "cs = (calls @ [batch @ [v]]) @ news"
        "concat news @ b = [] @ es"
        "length b = (length ([]::'a vector_entry list) + length rest) mod BATCH_SIZE"
        "length news = (length ([]::'a vector_entry list) + length rest) div BATCH_SIZE"
        "\<forall>c\<in>set news. length c = BATCH_SIZE \<and> upsert ext c = None"
      by blast
    have len: "length batch + length (item # rest) = BATCH_SIZE + length rest"
      using full by simp
    have pos: "0 < BATCH_SIZE" by (simp add: BATCH_SIZE_def)
    have nth: "\<forall>k<length (item # rest). prepare_vector ext (i + k) ((item # rest) ! k) = Inr ((v # es) ! k)"
      using v IH(2) by (auto simp: nth_Cons split: nat.splits)
    have modf: "(length batch + length (item # rest)) mod BATCH_SIZE = length rest mod BATCH_SIZE"
      unfolding len by simp
    have divf: "(length batch + length (item # rest)) div BATCH_SIZE = Suc (length rest div BATCH_SIZE)"
      unfolding len using pos by simp
    show ?thesis
      apply (rule exI[of _ "v # es"], rule exI[of _ "(batch @ [v]) # news"])
      unfolding modf divf
      using IH nth full ok by simp
  next
    case False
    with Cons.prems(1) v have rec: "pinecone_loop ext (Suc i) rest (batch @ [v]) calls = (cs, Inr b)"
      by simp
    from False have small: "length (batch @ [v]) < BATCH_SIZE" by simp
    from Cons.IH[OF rec small] obtain es news where
      IH: "length es = length rest"
        "\<forall>k<length rest. prepare_vector ext (Suc i + k) (rest ! k) = Inr (es ! k)"
        "cs = calls @ news"
        "concat news @ b = (batch @ [v]) @ es"
        "length b = (length (batch @ [v]) + length rest) mod BATCH_SIZE"
        "length news = (length (batch @ [v]) + length rest) div BATCH_SIZE"
        "\<forall>c\<in>set news. length c = BATCH_SIZE \<and> upsert ext c = None"
      by blast
    have nth: "\<forall>k<length (item # rest). prepare_vector ext (i + k) ((item # rest) ! k) = Inr ((v # es) ! k)"
      using v IH(2) by (auto simp: nth_Cons split: nat.splits)
    show ?thesis
      apply (rule exI[of _ "v # es"], rule exI[of _ news])
      using IH nth by simp
  qed
qed


lemma upload_to_pinecone_ok:
  assumes "snd (upload_to_pinecone ext data) = None"
  shows "\<exists>es. length es = length data
      \<and> (\<forall>k<length data. prepare_vector ext k (data ! k) = Inr (es ! k))
      \<and> concat (fst (upload_to_pinecone ext data)) = es
      \<and> length (fst (upload_to_pinecone ext data)) =
          length data div BATCH_SIZE + (if length data mod BATCH_SIZE = 0 then 0 else 1)
      \<and> (\<forall>k<length data div BATCH_SIZE. length (fst (upload_to_pinecone ext data) ! k) = BATCH_SIZE)
      \<and> (length data mod BATCH_SIZE \<noteq> 0 \<longrightarrow>
           length (last (fst (upload_to_pinecone ext data))) = length data mod BATCH_SIZE)
      \<and> (\<forall>c\<in>set (fst (upload_to_pinecone ext data)). upsert ext c = None)"
proof -
  obtain cs r where loop: "pinecone_loop ext 0 data [] [] = (cs, r)"
    by (cases "pinecone_loop ext 0 data [] []") auto
  with assms obtain b where r: "r = Inr b"
    by (cases r) (auto simp: upload_to_pinecone_def)
  have "length ([]::'a vector_entry list) < BATCH_SIZE" by (simp add: BATCH_SIZE_def)
  from pinecone_loop_ok[OF loop[unfolded r] this] obtain es news where
    L: "length es = length data"
       "\<forall>k<length data. prepare_vector ext (0 + k) (data ! k) = Inr (es ! k)"
       "cs = [] @ news"
       "concat news @ b = [] @ es"
       "length b = (length ([]::'a vector_entry list) + length data) mod BATCH_SIZE"
       "length news = (length ([]::'a vector_entry list) + length data) div BATCH_SIZE"
       "\<forall>c\<in>set news. length c = BATCH_SIZE \<and> upsert ext c = None"
    by blast
  have up: "upload_to_pinecone ext data =
      (if b \<noteq> [] then (news @ [b], upsert ext b) else (news, None))"
    using loop r L(3) by (simp add: upload_to_pinecone_def)
  show ?thesis
  proof (cases "b = []")
    case True
    with L up show ?thesis by (intro exI[of _ es]) simp
  next
    case False
    with up assms have ub: "upsert ext b = None" by simp
    from False L(5) have "length data mod BATCH_SIZE \<noteq> 0" by (cases b) auto
    with L up False ub show ?thesis
      by (intro exI[of _ es]) (simp add: nth_append)
  qed
qed

lemma py_get_obj:
  "py_get (JObj kvs) k d = Inr (case map_of kvs k of Some v \<Rightarrow> v | None \<Rightarrow> d)"
  by (simp split: option.splits)

lemma create_embedding_text_obj:
  assumes "create_embedding_text item = Inr text"
  shows "\<exists>kvs. item = JObj kvs"
  using assms by (cases item) (simp_all add: create_embedding_text_def)

lemma prepare_vector_Inr:
  assumes "prepare_vector ext i item = Inr e"
  shows "\<exists>kvs text. item = JObj kvs \<and> create_embedding_text item = Inr text \<and>
     encode ext text = Inr (entry_values e) \<and>
     meta_text (entry_metadata e) = take 1000 text \<and>
     entry_id e = py_str ext (case map_of kvs ''id'' of Some v \<Rightarrow> v | None \<Rightarrow> JInt (int i))"
proof -
  from assms obtain body where body: "create_embedding_text item = Inr body"
    by (cases "create_embedding_text item") (simp_all add: prepare_vector_def)
  then obtain kvs where item: "item = JObj kvs"
    using create_embedding_text_obj by blast
  from assms body obtain emb where emb: "encode ext body = Inr emb"
    by (cases "encode ext body") (simp_all add: prepare_vector_def)
  from assms have e: "e = \<lparr>entry_id = py_str ext (case map_of kvs ''id'' of Some v \<Rightarrow> v | None \<Rightarrow> JInt (int i)),
       entry_values = emb,
       entry_metadata =
         \<lparr>meta_id = (case map_of kvs ''id'' of Some v \<Rightarrow> v | None \<Rightarrow> JStr (str_of_nat i)),
          meta_name = (case map_of kvs ''name'' of Some v \<Rightarrow> v | None \<Rightarrow> JStr []),
          meta_description = (case map_of kvs ''description'' of Some v \<Rightarrow> v | None \<Rightarrow> JStr []),
          meta_type = (case map_of kvs ''type'' of Some v \<Rightarrow> v | None \<Rightarrow> JStr []),
          meta_text = take 1000 body\<rparr>\<rparr>"
    by (simp add: prepare_vector_def item body[unfolded item] emb py_get_obj del: py_get.simps)
  show ?thesis
    by (rule exI[of _ kvs], rule exI[of _ body]) (simp add: item body[unfolded item] emb e)
qed

lemma prepare_vector_ok:
  assumes "text_record item" and "\<forall>t. \<exists>v. encode ext t = Inr v"
  shows "\<exists>e. prepare_vector ext i item = Inr e"
proof -
  from create_embedding_text_text_record[OF assms(1)] obtain kvs body where
    item: "item = JObj kvs" and body: "create_embedding_text item = Inr body"
    by blast
  from assms(2) obtain v where v: "encode ext body = Inr v" by blast
  show ?thesis
    by (simp add: prepare_vector_def item body[unfolded item] v py_get_obj del: py_get.simps)
qed

lemma pinecone_loop_no_error:
  assumes "\<forall>item\<in>set items. text_record item"
    and "\<forall>t. \<exists>v. encode ext t = Inr v" and "\<forall>b. upsert ext b = None"
  shows "\<exists>cs b. pinecone_loop ext i items batch calls = (cs, Inr b)"
  using assms(1)
proof (induction items arbitrary: i batch calls)
  case Nil
  show ?case by simp
next
  case (Cons item rest)
  from Cons.prems have "text_record item" by simp
  from prepare_vector_ok[OF this assms(2)] obtain e where e: "prepare_vector ext i item = Inr e"
    by blast
  from Cons.prems have rest: "\<forall>item\<in>set rest. text_record item" by simp
  show ?case
    using Cons.IH[OF rest] assms(3) e by simp
qed

lemma upload_to_pinecone_no_error:
  assumes "\<forall>item\<in>set data. text_record item"
    and "\<forall>t. \<exists>v. encode ext t = Inr v" and "\<forall>b. upsert ext b = None"
  shows "snd (upload_to_pinecone ext data) = None"
proof -
  from pinecone_loop_no_error[OF assms] obtain cs b where
    "pinecone_loop ext 0 data [] [] = (cs, Inr b)" by blast
  then show ?thesis using assms(3) by (simp add: upload_to_pinecone_def)
qed

lemma ceiling_div_32: "- (- int n div 32) = int (n div 32 + (if n mod 32 = 0 then 0 else 1))"
proof -
  have "int n mod 32 = int (n mod 32)" by (simp add: zmod_int)
  then have "(int n mod 32 = 0) = (n mod 32 = 0)" by (metis of_nat_eq_0_iff)
  then show ?thesis
    by (simp add: zdiv_zminus1_eq_if zdiv_int)
qed

lemma ceiling_batches:
  "int (n div BATCH_SIZE + (if n mod BATCH_SIZE = 0 then 0 else 1)) = \<lceil>real n / 32\<rceil>"
proof -
  have "\<lceil>real n / 32\<rceil> = \<lceil>(of_int (int n) :: real) / of_int 32\<rceil>" by simp
  also have "\<dots> = - (- int n div 32)" by (rule ceiling_divide_eq_div)
  also have "\<dots> = int (n div 32 + (if n mod 32 = 0 then 0 else 1))" by (rule ceiling_div_32)
  finally show ?thesis by (simp add: BATCH_SIZE_def)
qed

text \<open>
  C1. For every dataset of N records, a run of \<^verbatim>\<open>upload_to_pinecone\<close> that raises nothing
  makes exactly ceil(N/32) calls to \<^verbatim>\<open>index.upsert\<close>: N div 32 calls of 32 entries each,
  made when the batch reaches 32 entries, and after them one call with the N mod 32
  entries that remain exactly when N mod 32 is not 0. The calls, one after the other, hold
  the entries of the records in order, each entry once. A run raises nothing when every
  record is a dictionary with textual fields and the embedding model and the index do
  not fail.
\<close>

theorem upload_to_pinecone_batches:
  "((\<forall>item\<in>set data. text_record item) \<and> (\<forall>t. \<exists>v. encode ext t = Inr v) \<and>
      (\<forall>b. upsert ext b = None) \<longrightarrow> snd (upload_to_pinecone ext data) = None) \<and>
   (snd (upload_to_pinecone ext data) = None \<longrightarrow>
      int (length (fst (upload_to_pinecone ext data))) = \<lceil>real (length data) / 32\<rceil> \<and>
      (\<forall>k < length data div 32. length (fst (upload_to_pinecone ext data) ! k) = 32) \<and>
      (length data mod 32 \<noteq> 0 \<longrightarrow>
         length (fst (upload_to_pinecone ext data)) = length data div 32 + 1 \<and>
         length (last (fst (upload_to_pinecone ext data))) = length data mod 32) \<and>
      (length data mod 32 = 0 \<longrightarrow>
         length (fst (upload_to_pinecone ext data)) = length data div 32) \<and>
      (\<exists>es. length es = length data \<and>
         (\<forall>k<length data. prepare_vector ext k (data ! k) = Inr (es ! k)) \<and>
         concat (fst (upload_to_pinecone ext data)) = es))"
proof (intro conjI impI)
  assume "(\<forall>item\<in>set data. text_record item) \<and> (\<forall>t. \<exists>v. encode ext t = Inr v) \<and>
      (\<forall>b. upsert ext b = None)"
  then show "snd (upload_to_pinecone ext data) = None"
    using upload_to_pinecone_no_error by blast
next
  assume ok: "snd (upload_to_pinecone ext data) = None"
  from upload_to_pinecone_ok[OF ok] obtain es where
    es: "length es = length data"
      "\<forall>k<length data. prepare_vector ext k (data ! k) = Inr (es ! k)"
      "concat (fst (upload_to_pinecone ext data)) = es"
    and len: "length (fst (upload_to_pinecone ext data)) =
          length data div BATCH_SIZE + (if length data mod BATCH_SIZE = 0 then 0 else 1)"
    and full: "\<forall>k<length data div BATCH_SIZE. length (fst (upload_to_pinecone ext data) ! k) = BATCH_SIZE"
    and rest: "length data mod BATCH_SIZE \<noteq> 0 \<longrightarrow>
           length (last (fst (upload_to_pinecone ext data))) = length data mod BATCH_SIZE"
    by (elim exE conjE)
  show "int (length (fst (upload_to_pinecone ext data))) = \<lceil>real (length data) / 32\<rceil>"
    unfolding len by (rule ceiling_batches)
  show "\<forall>k < length data div 32. length (fst (upload_to_pinecone ext data) ! k) = 32"
    using full by (simp add: BATCH_SIZE_def)
  show "\<exists>es. length es = length data \<and>
         (\<forall>k<length data. prepare_vector ext k (data ! k) = Inr (es ! k)) \<and>
         concat (fst (upload_to_pinecone ext data)) = es"
    using es by blast
  {
    assume "length data mod 32 \<noteq> 0"
    then show "length (fst (upload_to_pinecone ext data)) = length data div 32 + 1"
      and "length (last (fst (upload_to_pinecone ext data))) = length data mod 32"
      using len rest by (simp_all add: BATCH_SIZE_def)
  }
  {
    assume "length data mod 32 = 0"
    then show "length (fst (upload_to_pinecone ext data)) = length data div 32"
      using len by (simp add: BATCH_SIZE_def)
  }
qed

theorem upload_to_pinecone_batches_witness:
  "list_all text_record (replicate 33 (JObj [(''name'', JStr ''A'')])) \<and>
   (\<forall>t. \<exists>v. encode sample_externals t = Inr v) \<and>
   (\<forall>b. upsert sample_externals b = None) \<and>
   snd (upload_to_pinecone sample_externals (replicate 33 (JObj [(''name'', JStr ''A'')]))) = None \<and>
   length (fst (upload_to_pinecone sample_externals (replicate 33 (JObj [(''name'', JStr ''A'')])))) = 2 \<and>
   length (last (fst (upload_to_pinecone sample_externals (replicate 33 (JObj [(''name'', JStr ''A'')]))))) = 1"
proof -
  let ?data = "replicate 33 (JObj [(''name'', JStr ''A'')])"
  have r: "\<forall>item\<in>set ?data. text_record item"
    by (simp add: text_record_def text_field_def)
  then have r': "list_all text_record ?data"
    by (simp add: list_all_iff)
  have e: "\<forall>t. \<exists>v. encode sample_externals t = Inr v"
    by (simp add: sample_externals_def)
  have u: "\<forall>b. upsert sample_externals b = None"
    by (simp add: sample_externals_def)
  note T = upload_to_pinecone_batches[of ?data sample_externals]
  from T r e u have ok: "snd (upload_to_pinecone sample_externals ?data) = None"
    by blast
  have m: "length ?data mod 32 \<noteq> 0" "length ?data div 32 + 1 = 2" "length ?data mod 32 = 1"
    by simp_all
  from T ok m(1) have
    a: "length (fst (upload_to_pinecone sample_externals ?data)) = length ?data div 32 + 1"
    and b: "length (last (fst (upload_to_pinecone sample_externals ?data))) = length ?data mod 32"
    by blast+
  have "length (fst (upload_to_pinecone sample_externals ?data)) = 2"
    by (rule trans[OF a m(2)])
  moreover have "length (last (fst (upload_to_pinecone sample_externals ?data))) = 1"
    by (rule trans[OF b m(3)])
  ultimately have "length (fst (upload_to_pinecone sample_externals ?data)) = 2 \<and>
    length (last (fst (upload_to_pinecone sample_externals ?data))) = 1" by (rule conjI)
  with r' e u ok show ?thesis by (intro conjI) (elim conjE, assumption)+
qed

text \<open>
  C6. In a run of \<^verbatim>\<open>upload_to_pinecone\<close> that raises nothing, the entry built for the record
  at position k keeps in its metadata the first 1000 characters of the record's embedding
  text: exactly 1000 characters when the text is longer, the whole text otherwise. Its
  vector is the embedding of the whole text and its id is \<^verbatim>\<open>str\<close> of the record's
  \<^verbatim>\<open>id\<close> (of k when the record has none); neither depends on the cut.
\<close>

theorem metadata_text_truncated:
  assumes "snd (upload_to_pinecone ext data) = None" and "k < length data"
  shows "\<exists>kvs body. data ! k = JObj kvs \<and> create_embedding_text (data ! k) = Inr body \<and>
     meta_text (entry_metadata (concat (fst (upload_to_pinecone ext data)) ! k)) = take 1000 body \<and>
     (1000 < length body \<longrightarrow>
        length (meta_text (entry_metadata (concat (fst (upload_to_pinecone ext data)) ! k))) = 1000) \<and>
     (length body \<le> 1000 \<longrightarrow>
        meta_text (entry_metadata (concat (fst (upload_to_pinecone ext data)) ! k)) = body) \<and>
     encode ext body = Inr (entry_values (concat (fst (upload_to_pinecone ext data)) ! k)) \<and>
     entry_id (concat (fst (upload_to_pinecone ext data)) ! k) =
       py_str ext (case map_of kvs ''id'' of Some v \<Rightarrow> v | None \<Rightarrow> JInt (int k))"
proof -
  from upload_to_pinecone_ok[OF assms(1)] assms(2) have
    "prepare_vector ext k (data ! k) = Inr (concat (fst (upload_to_pinecone ext data)) ! k)"
    by blast
  from prepare_vector_Inr[OF this] obtain kvs body where
    p: "data ! k = JObj kvs" "create_embedding_text (data ! k) = Inr body"
      "encode ext body = Inr (entry_values (concat (fst (upload_to_pinecone ext data)) ! k))"
      "meta_text (entry_metadata (concat (fst (upload_to_pinecone ext data)) ! k)) = take 1000 body"
      "entry_id (concat (fst (upload_to_pinecone ext data)) ! k) =
         py_str ext (case map_of kvs ''id'' of Some v \<Rightarrow> v | None \<Rightarrow> JInt (int k))"
    by (elim exE conjE)
  have a: "1000 < length body \<longrightarrow>
        length (meta_text (entry_metadata (concat (fst (upload_to_pinecone ext data)) ! k))) = 1000"
    unfolding p(4) by simp
  have b: "length body \<le> 1000 \<longrightarrow>
        meta_text (entry_metadata (concat (fst (upload_to_pinecone ext data)) ! k)) = body"
    unfolding p(4) by simp
  show ?thesis
    by (rule exI[of _ kvs], rule exI[of _ body]) (intro conjI p a b)
qed

theorem metadata_text_truncated_witness:
  "snd (upload_to_pinecone sample_externals [long_record]) = None \<and>
   (0::nat) < length [long_record] \<and>
   create_embedding_text long_record = Inr (replicate 1001 CHR ''a'') \<and>
   meta_text (entry_metadata (concat (fst (upload_to_pinecone sample_externals [long_record])) ! 0)) =
     replicate 1000 CHR ''a'' \<and>
   entry_values (concat (fst (upload_to_pinecone sample_externals [long_record])) ! 0) = 1001 \<and>
   entry_id (concat (fst (upload_to_pinecone sample_externals [long_record])) ! 0) = ''r1''"
proof -
  have ok: "snd (upload_to_pinecone sample_externals [long_record]) = None"
    by code_simp
  have pos: "(0::nat) < length [long_record]" by simp
  have etext: "create_embedding_text long_record = Inr (replicate 1001 CHR ''a'')"
    by code_simp
  from metadata_text_truncated[OF ok pos] obtain kvs body where
    p: "[long_record] ! 0 = JObj kvs"
      "create_embedding_text ([long_record] ! 0) = Inr body"
      "meta_text (entry_metadata (concat (fst (upload_to_pinecone sample_externals [long_record])) ! 0)) =
         take 1000 body"
      "encode sample_externals body =
         Inr (entry_values (concat (fst (upload_to_pinecone sample_externals [long_record])) ! 0))"
      "entry_id (concat (fst (upload_to_pinecone sample_externals [long_record])) ! 0) =
         py_str sample_externals (case map_of kvs ''id'' of Some v \<Rightarrow> v | None \<Rightarrow> JInt (int 0))"
    by (elim exE conjE)
  from p(2) etext have body: "body = replicate 1001 CHR ''a''" by simp
  from p(1) have kvs: "kvs = [(''id'', JStr ''r1''), (''name'', JStr (replicate 1001 CHR ''a''))]"
    by (simp add: long_record_def)
  have m: "meta_text (entry_metadata (concat (fst (upload_to_pinecone sample_externals [long_record])) ! 0)) =
     replicate 1000 CHR ''a''"
    unfolding p(3) body by simp
  have v: "entry_values (concat (fst (upload_to_pinecone sample_externals [long_record])) ! 0) = 1001"
    using p(4) unfolding body by (simp add: sample_externals_def)
  have i: "entry_id (concat (fst (upload_to_pinecone sample_externals [long_record])) ! 0) = ''r1''"
    unfolding p(5) kvs by (simp add: py_str_def)
  from ok pos etext m v i show ?thesis by (intro conjI)
qed

section \<open>Configuration: properties\<close>

lemma config_errors_failed_checks: "config_errors c = failed_checks c"
  by (simp add: config_errors_def failed_checks_def Let_def)

lemma failed_checks_empty: "failed_checks c = [] \<longleftrightarrow> mandatory_ok c"
  by (simp add: failed_checks_def mandatory_ok_def provider_credential_missing_def)

lemma failed_checks_length:
  "length (failed_checks c) =
     length (filter id [PINECONE_API_KEY c = [], NEO4J_PASSWORD c = [],
        provider_credential_missing c, sublist ''your-neo4j-uri'' (NEO4J_URI c)])"
  by (simp add: failed_checks_def provider_credential_missing_def)

lemma config_errors_optional:
  "config_errors (c\<lparr>NEO4J_USER := u, PINECONE_HOST := h, PINECONE_INDEX_NAME := n, API_HOST := a\<rparr>) =
   config_errors c"
  by (simp add: config_errors_def Let_def)

text \<open>
  C7 (as amended). \<^verbatim>\<open>validate_config\<close> returns \<^verbatim>\<open>True\<close> when the Pinecone API key and the
  Neo4j password are non-empty, the credential of the selected provider (\<^verbatim>\<open>openai\<close> or
  \<^verbatim>\<open>huggingface\<close>) is non-empty, and the Neo4j URI is not the placeholder. Otherwise it
  raises one \<^verbatim>\<open>ValueError\<close> whose message is the line \<^verbatim>\<open>Configuration errors:\<close> followed by
  one line per failed check, all failed checks at once, in the order of the checks. The
  outcome does not depend on the optional settings.
\<close>

theorem validate_config_aggregates:
  "(mandatory_ok c \<longrightarrow> validate_config c = Inr True) \<and>
   (\<not> mandatory_ok c \<longrightarrow>
      failed_checks c \<noteq> [] \<and>
      validate_config c =
        Inl (ValueError (''Configuration errors:'' @ [CHR 0x0A] @
               join_strs [CHR 0x0A] (map (\<lambda>e. ''  - '' @ e) (failed_checks c))))) \<and>
   length (failed_checks c) =
     length (filter id [PINECONE_API_KEY c = [], NEO4J_PASSWORD c = [],
        provider_credential_missing c, sublist ''your-neo4j-uri'' (NEO4J_URI c)]) \<and>
   validate_config (c\<lparr>NEO4J_USER := u, PINECONE_HOST := h, PINECONE_INDEX_NAME := n, API_HOST := a\<rparr>) =
     validate_config c"
proof (intro conjI impI)
  assume "mandatory_ok c"
  then show "validate_config c = Inr True"
    by (simp add: validate_config_def config_errors_failed_checks failed_checks_empty)
next
  assume n: "\<not> mandatory_ok c"
  then show f: "failed_checks c \<noteq> []" by (simp add: failed_checks_empty)
  then show "validate_config c =
        Inl (ValueError (''Configuration errors:'' @ [CHR 0x0A] @
               join_strs [CHR 0x0A] (map (\<lambda>e. ''  - '' @ e) (failed_checks c))))"
    by (simp add: validate_config_def config_errors_failed_checks error_msg_def)
next
  show "length (failed_checks c) =
     length (filter id [PINECONE_API_KEY c = [], NEO4J_PASSWORD c = [],
        provider_credential_missing c, sublist ''your-neo4j-uri'' (NEO4J_URI c)])"
    by (rule failed_checks_length)
next
  show "validate_config (c\<lparr>NEO4J_USER := u, PINECONE_HOST := h, PINECONE_INDEX_NAME := n, API_HOST := a\<rparr>) =
     validate_config c"
    unfolding validate_config_def config_errors_optional ..
qed

lemma load_full_env:
  "load_config (map_of full_env) =
     \<lparr>NEO4J_URI = ''neo4j+s://db.example.io'', NEO4J_USER = ''neo4j'', NEO4J_PASSWORD = ''pw'',
      PINECONE_API_KEY = ''pk'', PINECONE_HOST = [], LLM_PROVIDER = ''huggingface'',
      OPENAI_API_KEY = [], HUGGINGFACE_API_KEY = ''hf'',
      PINECONE_INDEX_NAME = ''sikkim-service-rule'', API_HOST = ''0.0.0.0''\<rparr>"
  by (simp add: load_config_def getenv_def full_env_def)

lemma load_no_password_env:
  "load_config (map_of no_password_env) =
     \<lparr>NEO4J_URI = ''neo4j+s://db.example.io'', NEO4J_USER = ''neo4j'', NEO4J_PASSWORD = [],
      PINECONE_API_KEY = ''pk'', PINECONE_HOST = [], LLM_PROVIDER = ''huggingface'',
      OPENAI_API_KEY = [], HUGGINGFACE_API_KEY = ''hf'',
      PINECONE_INDEX_NAME = ''sikkim-service-rule'', API_HOST = ''0.0.0.0''\<rparr>"
  by (simp add: load_config_def getenv_def no_password_env_def)

lemma load_empty_env:
  "load_config Map.empty =
     \<lparr>NEO4J_URI = ''neo4j+s://your-neo4j-uri.databases.neo4j.io'', NEO4J_USER = ''neo4j'',
      NEO4J_PASSWORD = [], PINECONE_API_KEY = [], PINECONE_HOST = [],
      LLM_PROVIDER = ''huggingface'', OPENAI_API_KEY = [], HUGGINGFACE_API_KEY = [],
      PINECONE_INDEX_NAME = ''sikkim-service-rule'', API_HOST = ''0.0.0.0''\<rparr>"
  by (simp add: load_config_def getenv_def)

lemma placeholder_in_default: "sublist ''your-neo4j-uri'' ''neo4j+s://your-neo4j-uri.databases.neo4j.io''"
  by code_simp

lemma placeholder_not_in_example: "\<not> sublist ''your-neo4j-uri'' ''neo4j+s://db.example.io''"
  by code_simp

theorem validate_config_aggregates_witness:
  "mandatory_ok (load_config (map_of full_env)) \<and>
   validate_config (load_config (map_of full_env)) = Inr True \<and>
   \<not> mandatory_ok (load_config (map_of no_password_env)) \<and>
   validate_config (load_config (map_of no_password_env)) =
     Inl (ValueError (''Configuration errors:'' @ [CHR 0x0A] @ ''  - NEO4J_PASSWORD is not set''))"
proof -
  have ok: "mandatory_ok (load_config (map_of full_env))"
    unfolding load_full_env
    by (simp add: mandatory_ok_def provider_credential_missing_def placeholder_not_in_example)
  have bad: "\<not> mandatory_ok (load_config (map_of no_password_env))"
    unfolding load_no_password_env by (simp add: mandatory_ok_def)
  have fc: "failed_checks (load_config (map_of no_password_env)) = [''NEO4J_PASSWORD is not set'']"
    unfolding load_no_password_env
    by (simp add: failed_checks_def placeholder_not_in_example)
  from validate_config_aggregates[of "load_config (map_of full_env)"] ok
  have a: "validate_config (load_config (map_of full_env)) = Inr True" by blast
  from validate_config_aggregates[of "load_config (map_of no_password_env)"] bad
  have "validate_config (load_config (map_of no_password_env)) =
        Inl (ValueError (''Configuration errors:'' @ [CHR 0x0A] @
               join_strs [CHR 0x0A] (map (\<lambda>e. ''  - '' @ e)
                 (failed_checks (load_config (map_of no_password_env))))))" by blast
  then have b: "validate_config (load_config (map_of no_password_env)) =
     Inl (ValueError (''Configuration errors:'' @ [CHR 0x0A] @ ''  - NEO4J_PASSWORD is not set''))"
    unfolding fc by simp
  from ok a bad b show ?thesis by (intro conjI)
qed

text \<open>
  With nothing set in the environment the four checks fail, and the outcome is an
  exception, not a returned list.
\<close>

theorem validate_config_raises:
  "validate_config (load_config Map.empty) =
     Inl (ValueError (''Configuration errors:'' @ [CHR 0x0A] @
       ''  - PINECONE_API_KEY is not set'' @ [CHR 0x0A] @
       ''  - NEO4J_PASSWORD is not set'' @ [CHR 0x0A] @
       ''  - HUGGINGFACE_API_KEY is not set (LLM_PROVIDER=huggingface)'' @ [CHR 0x0A] @
       ''  - NEO4J_URI is not properly configured''))"
  unfolding load_empty_env
  by (simp add: validate_config_def config_errors_failed_checks failed_checks_def error_msg_def
        placeholder_in_default)

section \<open>Graph upload: order of the transactions\<close>

lemma write_transaction_txlog:
  "txlog (fst (write_transaction ext fn s)) = txlog s @ [(fn, snd (write_transaction ext fn s) = None)]"
  by (cases "run_txfn ext s fn") (simp_all add: write_transaction_def)

lemma create_nodes_loop_txlog:
  assumes "create_nodes_loop ext items s = (s', r)"
  shows "(r = None \<longrightarrow> txlog s' = txlog s @ map (\<lambda>item. (CreateNode item, True)) items) \<and>
         (\<exists>l. txlog s' = txlog s @ l \<and> (\<forall>x\<in>set l. is_node_tx (fst x)))"
  using assms
proof (induction items arbitrary: s)
  case Nil
  then show ?case by simp
next
  case (Cons item rest)
  obtain s1 r1 where w: "write_transaction ext (CreateNode item) s = (s1, r1)"
    by (cases "write_transaction ext (CreateNode item) s") auto
  from write_transaction_txlog[of ext "CreateNode item" s] w
  have log1: "txlog s1 = txlog s @ [(CreateNode item, r1 = None)]" by simp
  show ?case
  proof (cases r1)
    case None
    with Cons.prems w have "create_nodes_loop ext rest s1 = (s', r)" by simp
    from Cons.IH[OF this] obtain l where
      a: "r = None \<longrightarrow> txlog s' = txlog s1 @ map (\<lambda>item. (CreateNode item, True)) rest"
      and b: "txlog s' = txlog s1 @ l" "\<forall>x\<in>set l. is_node_tx (fst x)"
      by blast
    from a log1 None have "r = None \<longrightarrow> txlog s' = txlog s @ map (\<lambda>item. (CreateNode item, True)) (item # rest)"
      by simp
    moreover from b log1 have "txlog s' = txlog s @ ((CreateNode item, r1 = None) # l)"
      "\<forall>x\<in>set ((CreateNode item, r1 = None) # l). is_node_tx (fst x)"
      by simp_all
    ultimately show ?thesis by blast
  next
    case (Some e)
    with Cons.prems w have "s' = s1" "r = Some e" by simp_all
    with log1 show ?thesis
      by (intro conjI exI[of _ "[(CreateNode item, r1 = None)]"]) simp_all
  qed
qed

lemma create_relationships_loop_txlog:
  assumes "create_relationships_loop ext items s = (s', r)"
  shows "\<exists>l. txlog s' = txlog s @ l \<and> (\<forall>x\<in>set l. is_rel_tx (fst x))"
  using assms
proof (induction items arbitrary: s)
  case Nil
  then show ?case by simp
next
  case (Cons item rest)
  obtain s1 r1 where w: "write_transaction ext (CreateRelationships item) s = (s1, r1)"
    by (cases "write_transaction ext (CreateRelationships item) s") auto
  from write_transaction_txlog[of ext "CreateRelationships item" s] w
  have log1: "txlog s1 = txlog s @ [(CreateRelationships item, r1 = None)]" by simp
  show ?case
  proof (cases r1)
    case None
    with Cons.prems w have "create_relationships_loop ext rest s1 = (s', r)" by simp
    from Cons.IH[OF this] obtain l where
      b: "txlog s' = txlog s1 @ l" "\<forall>x\<in>set l. is_rel_tx (fst x)"
      by blast
    from b log1 have "txlog s' = txlog s @ ((CreateRelationships item, r1 = None) # l)"
      "\<forall>x\<in>set ((CreateRelationships item, r1 = None) # l). is_rel_tx (fst x)"
      by simp_all
    then show ?thesis by blast
  next
    case (Some e)
    with Cons.prems w have "s' = s1" by simp
    with log1 show ?thesis
      by (intro exI[of _ "[(CreateRelationships item, r1 = None)]"]) simp
  qed
qed

text \<open>
  The shape of the log of \<^verbatim>\<open>upload_to_neo4j\<close>: the clearing, then node transactions only,
  or the clearing, one committed node transaction per record, then relationship
  transactions only.
\<close>

lemma upload_to_neo4j_txlog:
  "(\<exists>l. txlog (fst (upload_to_neo4j ext data g)) = (ClearDatabase, True) # l \<and>
        (\<forall>x\<in>set l. is_node_tx (fst x))) \<or>
   (\<exists>l. txlog (fst (upload_to_neo4j ext data g)) =
          (ClearDatabase, True) # map (\<lambda>item. (CreateNode item, True)) data @ l \<and>
        (\<forall>x\<in>set l. is_rel_tx (fst x)))"
proof -
  obtain s1 where c: "write_transaction ext ClearDatabase \<lparr>store = g, txlog = []\<rparr> = (s1, None)"
    and log1: "txlog s1 = [(ClearDatabase, True)]"
    by (simp add: write_transaction_def run_txfn_def clear_database_def)
  obtain s2 r2 where n: "create_nodes_loop ext data s1 = (s2, r2)"
    by (cases "create_nodes_loop ext data s1") auto
  from create_nodes_loop_txlog[OF n] log1 obtain l where
    a: "r2 = None \<longrightarrow> txlog s2 = (ClearDatabase, True) # map (\<lambda>item. (CreateNode item, True)) data"
    and b: "txlog s2 = (ClearDatabase, True) # l" "\<forall>x\<in>set l. is_node_tx (fst x)"
    by auto
  show ?thesis
  proof (cases r2)
    case (Some e)
    with c n have "fst (upload_to_neo4j ext data g) = s2"
      by (simp add: upload_to_neo4j_def)
    with b show ?thesis by blast
  next
    case None
    obtain s3 r3 where r: "create_relationships_loop ext data s2 = (s3, r3)"
      by (cases "create_relationships_loop ext data s2") auto
    with None c n have u: "fst (upload_to_neo4j ext data g) = s3"
      by (simp add: upload_to_neo4j_def)
    from create_relationships_loop_txlog[OF r] obtain l' where
      "txlog s3 = txlog s2 @ l'" "\<forall>x\<in>set l'. is_rel_tx (fst x)" by blast
    with a None u show ?thesis by auto
  qed
qed

lemma node_tx_not_rel_tx: "is_node_tx fn \<Longrightarrow> \<not> is_rel_tx fn"
  by (cases fn) simp_all

text \<open>
  C3. In every run of \<^verbatim>\<open>upload_to_neo4j\<close>, whenever a relationship transaction is issued
  (at position j of the session's transactions), the node transaction of every record of
  the dataset has been committed before it, one per record in dataset order right after
  the clearing, and every node transaction of the run comes before position j.
\<close>

theorem nodes_before_relationships:
  assumes "j < length (txlog (fst (upload_to_neo4j ext data g)))"
    and "is_rel_tx (fst (txlog (fst (upload_to_neo4j ext data g)) ! j))"
  shows "length data < j \<and>
     (\<forall>k<length data. txlog (fst (upload_to_neo4j ext data g)) ! Suc k = (CreateNode (data ! k), True)) \<and>
     (\<forall>i<length (txlog (fst (upload_to_neo4j ext data g))).
         is_node_tx (fst (txlog (fst (upload_to_neo4j ext data g)) ! i)) \<longrightarrow> i < j)"
proof -
  let ?log = "txlog (fst (upload_to_neo4j ext data g))"
  from upload_to_neo4j_txlog[of ext data g] show ?thesis
  proof (elim disjE exE conjE)
    fix l
    assume log: "?log = (ClearDatabase, True) # l" and l: "\<forall>x\<in>set l. is_node_tx (fst x)"
    have "\<not> is_rel_tx (fst (?log ! j))"
    proof (cases j)
      case 0
      then show ?thesis by (simp add: log)
    next
      case (Suc j')
      with assms(1) log have "j' < length l" by simp
      with l have "is_node_tx (fst (l ! j'))" by simp
      then show ?thesis using Suc log by (simp add: node_tx_not_rel_tx)
    qed
    with assms(2) show ?thesis by simp
  next
    fix l
    assume log: "?log = (ClearDatabase, True) # map (\<lambda>item. (CreateNode item, True)) data @ l"
      and l: "\<forall>x\<in>set l. is_rel_tx (fst x)"
    have nodes: "\<forall>k<length data. ?log ! Suc k = (CreateNode (data ! k), True)"
      by (simp add: log nth_append)
    have j: "length data < j"
    proof (rule ccontr)
      assume "\<not> length data < j"
      then have "j = 0 \<or> (\<exists>k<length data. j = Suc k)" by (cases j) auto
      then have "\<not> is_rel_tx (fst (?log ! j))"
        using nodes by (auto simp: log)
      with assms(2) show False by simp
    qed
    have "\<forall>i<length ?log. is_node_tx (fst (?log ! i)) \<longrightarrow> i < j"
    proof (intro allI impI)
      fix i assume i: "i < length ?log" and n: "is_node_tx (fst (?log ! i))"
      show "i < j"
      proof (rule ccontr)
        assume "\<not> i < j"
        with j have big: "length data < i" by simp
        then obtain m where m: "i = Suc (length data + m)"
          by (metis add_Suc_right less_imp_Suc_add add_Suc)
        with i log have "m < length l" by simp
        with l have "is_rel_tx (fst (l ! m))" by simp
        moreover have "?log ! i = l ! m"
          unfolding log m by (simp add: nth_append)
        ultimately show False using n node_tx_not_rel_tx by auto
      qed
    qed
    with j nodes show ?thesis by (intro conjI)
  qed
qed

lemma sample_txlog:
  "txlog (fst (upload_to_neo4j sample_externals sample_data empty_graph)) =
     [(ClearDatabase, True), (CreateNode (sample_data ! 0), True), (CreateNode (sample_data ! 1), True),
      (CreateRelationships (sample_data ! 0), True), (CreateRelationships (sample_data ! 1), True)]"
  by code_simp

theorem nodes_before_relationships_witness:
  "3 < length (txlog (fst (upload_to_neo4j sample_externals sample_data empty_graph))) \<and>
   is_rel_tx (fst (txlog (fst (upload_to_neo4j sample_externals sample_data empty_graph)) ! 3)) \<and>
   length sample_data < 3 \<and>
   txlog (fst (upload_to_neo4j sample_externals sample_data empty_graph)) ! 1 =
     (CreateNode (sample_data ! 0), True) \<and>
   txlog (fst (upload_to_neo4j sample_externals sample_data empty_graph)) ! 2 =
     (CreateNode (sample_data ! 1), True)"
proof -
  have a: "3 < length (txlog (fst (upload_to_neo4j sample_externals sample_data empty_graph)))"
    unfolding sample_txlog by simp
  have b: "is_rel_tx (fst (txlog (fst (upload_to_neo4j sample_externals sample_data empty_graph)) ! 3))"
    unfolding sample_txlog by simp
  have n: "length sample_data = 2" by (simp add: sample_data_def)
  from nodes_before_relationships[OF a b] have
    c: "length sample_data < 3"
    and d: "\<forall>k<length sample_data.
       txlog (fst (upload_to_neo4j sample_externals sample_data empty_graph)) ! Suc k =
         (CreateNode (sample_data ! k), True)"
    by blast+
  from d n have "txlog (fst (upload_to_neo4j sample_externals sample_data empty_graph)) ! Suc 0 =
         (CreateNode (sample_data ! 0), True)"
    "txlog (fst (upload_to_neo4j sample_externals sample_data empty_graph)) ! Suc 1 =
         (CreateNode (sample_data ! 1), True)"
    by simp_all
  then have "txlog (fst (upload_to_neo4j sample_externals sample_data empty_graph)) ! 1 =
         (CreateNode (sample_data ! 0), True)"
    "txlog (fst (upload_to_neo4j sample_externals sample_data empty_graph)) ! 2 =
         (CreateNode (sample_data ! 1), True)"
    by (simp_all add: numeral_2_eq_2)
  with a b c show ?thesis by (intro conjI)
qed

section \<open>Edge upload: properties\<close>

lemma py_get_field_or: "py_get (JObj kvs) k d = Inr (field_or (JObj kvs) k d)"
  by (simp add: field_or_def split: option.splits)

lemma merge_rel_nodes:
  assumes "merge_rel t ab g = Inr g'"
  shows "g_nodes g' = g_nodes g \<and> set (g_edges g) \<subseteq> set (g_edges g')"
  using assms by (auto simp: merge_rel_def split: if_splits)

lemma merge_rel_edge:
  assumes "merge_rel t ab g = Inr g'"
  shows "\<exists>e\<in>set (g_edges g'). edge_src e = fst ab \<and> edge_dst e = snd ab \<and>
           edge_reltype e = ''RELATED_TO'' \<and> edge_type e = t"
  using assms by (auto simp: merge_rel_def split: if_splits)

lemma merge_rels_nodes:
  assumes "merge_rels t rows g = Inr g'"
  shows "g_nodes g' = g_nodes g \<and> set (g_edges g) \<subseteq> set (g_edges g')"
  using assms
proof (induction rows arbitrary: g)
  case Nil
  then show ?case by simp
next
  case (Cons ab rows)
  then obtain g1 where g1: "merge_rel t ab g = Inr g1" and rest: "merge_rels t rows g1 = Inr g'"
    by (cases "merge_rel t ab g") simp_all
  from merge_rel_nodes[OF g1] Cons.IH[OF rest] show ?case by auto
qed

lemma merge_rels_edge:
  assumes "merge_rels t rows g = Inr g'" and "ab \<in> set rows"
  shows "\<exists>e\<in>set (g_edges g'). edge_src e = fst ab \<and> edge_dst e = snd ab \<and>
           edge_reltype e = ''RELATED_TO'' \<and> edge_type e = t"
  using assms
proof (induction rows arbitrary: g)
  case Nil
  then show ?case by simp
next
  case (Cons r rows)
  then obtain g1 where g1: "merge_rel t r g = Inr g1" and rest: "merge_rels t rows g1 = Inr g'"
    by (cases "merge_rel t r g") simp_all
  show ?case
  proof (cases "ab = r")
    case True
    from merge_rel_edge[OF g1] obtain e where
      e: "e \<in> set (g_edges g1)" "edge_src e = fst ab \<and> edge_dst e = snd ab \<and>
           edge_reltype e = ''RELATED_TO'' \<and> edge_type e = t"
      using True by blast
    from merge_rels_nodes[OF rest] e(1) have "e \<in> set (g_edges g')" by blast
    with e(2) show ?thesis by blast
  next
    case False
    with Cons.prems(2) have "ab \<in> set rows" by simp
    from Cons.IH[OF rest this] show ?thesis .
  qed
qed

lemma match_service_rule_cong:
  "g_nodes g' = g_nodes g \<Longrightarrow> match_service_rule v g' = match_service_rule v g"
  by (simp add: match_service_rule_def)

lemma run_relationship_query_nodes:
  assumes "run_relationship_query f t ty g = Inr g'"
  shows "g_nodes g' = g_nodes g \<and> set (g_edges g) \<subseteq> set (g_edges g')"
  using assms merge_rels_nodes
  by (auto simp: run_relationship_query_def split: if_splits)

lemma product_Nil_right: "List.product xs [] = []"
  by (induction xs) simp_all

lemma run_relationship_query_no_target:
  assumes "sendable f" and "sendable t" and "sendable ty" and "match_service_rule t g = []"
  shows "run_relationship_query f t ty g = Inr g"
  using assms by (simp add: run_relationship_query_def product_Nil_right)

lemma run_relationship_query_edge:
  assumes "run_relationship_query f t ty g = Inr g'"
    and "a \<in> set (match_service_rule f g)" and "b \<in> set (match_service_rule t g)"
  shows "\<exists>e\<in>set (g_edges g'). edge_src e = a \<and> edge_dst e = b \<and>
           edge_reltype e = ''RELATED_TO'' \<and> edge_type e = ty"
proof -
  from assms(1) have m: "merge_rels ty (List.product (match_service_rule f g) (match_service_rule t g)) g = Inr g'"
    by (simp add: run_relationship_query_def split: if_splits)
  from assms(2,3) have "(a, b) \<in> set (List.product (match_service_rule f g) (match_service_rule t g))"
    by simp
  from merge_rels_edge[OF m this] show ?thesis by simp
qed

lemma connections_loop_step:
  "connections_loop (JObj kvs) (JObj ckvs # rest) g =
     (case run_relationship_query (field_or (JObj kvs) ''id'' (JStr '''')) (field_or (JObj ckvs) ''id'' (JStr ''''))
             (field_or (JObj ckvs) ''type'' (JStr ''RELATED'')) g of
        Inl e \<Rightarrow> Inl e
      | Inr g' \<Rightarrow> connections_loop (JObj kvs) rest g')"
  by (simp add: py_get_field_or del: py_get.simps)

lemma connections_loop_nodes:
  assumes "connections_loop item cs g = Inr g'"
  shows "g_nodes g' = g_nodes g \<and> set (g_edges g) \<subseteq> set (g_edges g')"
  using assms
proof (induction cs arbitrary: g)
  case Nil
  then show ?case by simp
next
  case (Cons c cs)
  from Cons.prems obtain f t ty g1 where
    q: "run_relationship_query f t ty g = Inr g1" and rest: "connections_loop item cs g1 = Inr g'"
    by (auto split: sum.splits)
  from run_relationship_query_nodes[OF q] Cons.IH[OF rest] show ?case by auto
qed

lemma connections_loop_append:
  "connections_loop item (xs @ ys) g =
     (case connections_loop item xs g of Inl e \<Rightarrow> Inl e | Inr g1 \<Rightarrow> connections_loop item ys g1)"
  by (induction xs arbitrary: g) (simp_all split: sum.splits)

lemma connections_loop_item_cong:
  assumes "py_get item ''id'' (JStr '''') = py_get item' ''id'' (JStr '''')"
  shows "connections_loop item cs g = connections_loop item' cs g"
  using assms by (induction cs arbitrary: g) (simp_all split: sum.splits)

lemma dangling_entry_cong:
  "g_nodes g' = g_nodes g \<Longrightarrow> dangling_entry g' item c = dangling_entry g item c"
  by (simp add: dangling_entry_def match_service_rule_def)

lemma connections_loop_dangling_head:
  assumes "dangling_entry g item c"
  shows "connections_loop item (c # cs) g = connections_loop item cs g"
proof -
  from assms obtain kvs ckvs where item: "item = JObj kvs" and c: "c = JObj ckvs"
    by (cases item; cases c) (simp_all add: dangling_entry_def)
  from assms have "run_relationship_query (field_or item ''id'' (JStr '''')) (field_or c ''id'' (JStr ''''))
             (field_or c ''type'' (JStr ''RELATED'')) g = Inr g"
    by (intro run_relationship_query_no_target) (simp_all add: dangling_entry_def)
  then show ?thesis unfolding item c connections_loop_step by simp
qed

lemma connections_loop_head:
  "connections_loop item (c # cs) g =
     (case connections_loop item [c] g of Inl e \<Rightarrow> Inl e | Inr g1 \<Rightarrow> connections_loop item cs g1)"
  by (simp split: sum.splits)

lemma connections_loop_drop_dangling:
  assumes "g_nodes g0 = g_nodes g"
  shows "connections_loop item (filter (\<lambda>c. \<not> dangling_entry g0 item c) cs) g = connections_loop item cs g"
  using assms
proof (induction cs arbitrary: g)
  case Nil
  show ?case by simp
next
  case (Cons c cs)
  let ?kept = "filter (\<lambda>c. \<not> dangling_entry g0 item c) cs"
  show ?case
  proof (cases "dangling_entry g0 item c")
    case True
    then have fl: "filter (\<lambda>c. \<not> dangling_entry g0 item c) (c # cs) = ?kept" by simp
    from True dangling_entry_cong[OF Cons.prems, of item c] have "dangling_entry g item c" by simp
    then have "connections_loop item (c # cs) g = connections_loop item cs g"
      by (rule connections_loop_dangling_head)
    also have "\<dots> = connections_loop item ?kept g"
      by (rule Cons.IH[OF Cons.prems, symmetric])
    finally show ?thesis unfolding fl by (rule sym)
  next
    case False
    then have fl: "filter (\<lambda>c. \<not> dangling_entry g0 item c) (c # cs) = c # ?kept" by simp
    show ?thesis
    proof (cases "connections_loop item [c] g")
      case (Inl e)
      show ?thesis
        unfolding fl connections_loop_head[of item c ?kept g] connections_loop_head[of item c cs g] Inl
        by simp
    next
      case (Inr g1)
      from connections_loop_nodes[OF Inr] Cons.prems have "g_nodes g0 = g_nodes g1" by simp
      from Cons.IH[OF this] show ?thesis
        unfolding fl connections_loop_head[of item c ?kept g] connections_loop_head[of item c cs g] Inr
        by simp
    qed
  qed
qed

lemma create_relationships_obj:
  assumes "map_of kvs ''connections'' = Some (JList cs)"
  shows "create_relationships (JObj kvs) g = connections_loop (JObj kvs) cs g"
  using assms by (simp add: create_relationships_def)

text \<open>
  C4. For every record with a list of connections and every graph, the entries that point
  at no node of the graph count for nothing: \<^verbatim>\<open>create_relationships\<close> has the same outcome
  (the same graph, or the same error raised by another entry) as on the record without
  these entries, so the other entries are processed as before. When every entry points at
  no node, no error is raised and the graph is unchanged. In any run that raises nothing
  no node is created, so an entry that pointed at no node still points at none, and no
  edge can end at it.
\<close>

theorem dangling_connection_is_noop:
  assumes "map_of kvs ''connections'' = Some (JList cs)"
  shows "create_relationships (JObj kvs) g =
           create_relationships
             (JObj ((''connections'', JList (filter (\<lambda>c. \<not> dangling_entry g (JObj kvs) c) cs)) # kvs)) g \<and>
         ((\<forall>c\<in>set cs. dangling_entry g (JObj kvs) c) \<longrightarrow> create_relationships (JObj kvs) g = Inr g) \<and>
         (\<forall>g'. create_relationships (JObj kvs) g = Inr g' \<longrightarrow>
            g_nodes g' = g_nodes g \<and>
            (\<forall>c\<in>set cs. dangling_entry g (JObj kvs) c \<longrightarrow>
               match_service_rule (field_or c ''id'' (JStr '''')) g' = []))"
proof -
  let ?kept = "filter (\<lambda>c. \<not> dangling_entry g (JObj kvs) c) cs"
  let ?item' = "JObj ((''connections'', JList ?kept) # kvs)"
  have loop: "create_relationships (JObj kvs) g = connections_loop (JObj kvs) cs g"
    by (rule create_relationships_obj[OF assms])
  have "create_relationships ?item' g = connections_loop ?item' ?kept g"
    by (rule create_relationships_obj) simp
  also have "\<dots> = connections_loop (JObj kvs) ?kept g"
    by (rule connections_loop_item_cong) simp
  also have "\<dots> = connections_loop (JObj kvs) cs g"
    by (rule connections_loop_drop_dangling) simp
  finally have one: "create_relationships (JObj kvs) g = create_relationships ?item' g"
    using loop by simp
  have two: "(\<forall>c\<in>set cs. dangling_entry g (JObj kvs) c) \<longrightarrow> create_relationships (JObj kvs) g = Inr g"
  proof
    assume "\<forall>c\<in>set cs. dangling_entry g (JObj kvs) c"
    then have "?kept = []" by (simp add: filter_empty_conv)
    with connections_loop_drop_dangling[of g g "JObj kvs" cs]
    have "connections_loop (JObj kvs) cs g = Inr g" by simp
    with loop show "create_relationships (JObj kvs) g = Inr g" by simp
  qed
  have three: "\<forall>g'. create_relationships (JObj kvs) g = Inr g' \<longrightarrow>
            g_nodes g' = g_nodes g \<and>
            (\<forall>c\<in>set cs. dangling_entry g (JObj kvs) c \<longrightarrow>
               match_service_rule (field_or c ''id'' (JStr '''')) g' = [])"
  proof (intro allI impI)
    fix g' assume "create_relationships (JObj kvs) g = Inr g'"
    with loop have "connections_loop (JObj kvs) cs g = Inr g'" by simp
    from connections_loop_nodes[OF this] have n: "g_nodes g' = g_nodes g" by simp
    have "\<forall>c\<in>set cs. dangling_entry g (JObj kvs) c \<longrightarrow>
               match_service_rule (field_or c ''id'' (JStr '''')) g' = []"
    proof (intro ballI impI)
      fix c assume "c \<in> set cs" and "dangling_entry g (JObj kvs) c"
      then have "match_service_rule (field_or c ''id'' (JStr '''')) g = []"
        by (simp add: dangling_entry_def)
      with match_service_rule_cong[OF n] show "match_service_rule (field_or c ''id'' (JStr '''')) g' = []"
        by simp
    qed
    with n show "g_nodes g' = g_nodes g \<and>
            (\<forall>c\<in>set cs. dangling_entry g (JObj kvs) c \<longrightarrow>
               match_service_rule (field_or c ''id'' (JStr '''')) g' = [])" by (rule conjI)
  qed
  from one two three show ?thesis by (intro conjI)
qed

lemma dangling_record_kept:
  "filter (\<lambda>c. \<not> dangling_entry sample_graph
        (JObj [(''id'', JStr ''1''),
           (''connections'',
            JList [JObj [(''id'', JStr ''9''), (''type'', JStr ''NEXT'')],
                   JObj [(''id'', JStr ''2'')]])]) c)
     [JObj [(''id'', JStr ''9''), (''type'', JStr ''NEXT'')], JObj [(''id'', JStr ''2'')]] =
   [JObj [(''id'', JStr ''2'')]]"
  by code_simp

lemma dangling_record_kept_run:
  "create_relationships
     (JObj ((''connections'', JList [JObj [(''id'', JStr ''2'')]]) #
        [(''id'', JStr ''1''),
           (''connections'',
            JList [JObj [(''id'', JStr ''9''), (''type'', JStr ''NEXT'')],
                   JObj [(''id'', JStr ''2'')]])])) sample_graph =
   Inr (sample_graph\<lparr>g_edges :=
          [\<lparr>edge_src = 0, edge_dst = 1, edge_reltype = ''RELATED_TO'', edge_type = JStr ''RELATED''\<rparr>]\<rparr>)"
  by code_simp

theorem dangling_connection_is_noop_witness:
  "dangling_entry sample_graph dangling_record (JObj [(''id'', JStr ''9''), (''type'', JStr ''NEXT'')]) \<and>
   create_relationships dangling_record sample_graph =
     Inr (sample_graph\<lparr>g_edges :=
          [\<lparr>edge_src = 0, edge_dst = 1, edge_reltype = ''RELATED_TO'', edge_type = JStr ''RELATED''\<rparr>]\<rparr>)"
proof -
  have d: "dangling_entry sample_graph dangling_record (JObj [(''id'', JStr ''9''), (''type'', JStr ''NEXT'')])"
    by code_simp
  have m: "map_of [(''id'', JStr ''1''),
           (''connections'',
            JList [JObj [(''id'', JStr ''9''), (''type'', JStr ''NEXT'')],
                   JObj [(''id'', JStr ''2'')]])] ''connections'' =
        Some (JList [JObj [(''id'', JStr ''9''), (''type'', JStr ''NEXT'')], JObj [(''id'', JStr ''2'')]])"
    by simp
  from dangling_connection_is_noop[OF m, of sample_graph]
  have "create_relationships dangling_record sample_graph =
     Inr (sample_graph\<lparr>g_edges :=
          [\<lparr>edge_src = 0, edge_dst = 1, edge_reltype = ''RELATED_TO'', edge_type = JStr ''RELATED''\<rparr>]\<rparr>)"
    unfolding dangling_record_kept dangling_record_kept_run dangling_record_def by (elim conjE)
  with d show ?thesis by (rule conjI)
qed

text \<open>
  C10. In a run of \<^verbatim>\<open>create_relationships\<close> that raises nothing, every connection entry of
  the record gives an edge between each node matching the record's id and each node
  matching the entry's id, of relationship type \<^verbatim>\<open>RELATED_TO\<close>, whose \<^verbatim>\<open>type\<close> property is
  the entry's type, or the string \<^verbatim>\<open>RELATED\<close> when the entry has no type. A record or an
  entry without an id takes part with the empty string as its id.
\<close>

theorem missing_type_and_id_defaults:
  assumes "create_relationships (JObj kvs) g = Inr g'"
    and "map_of kvs ''connections'' = Some (JList cs)"
    and "JObj ckvs \<in> set cs"
    and "a \<in> set (match_service_rule (case map_of kvs ''id'' of Some v \<Rightarrow> v | None \<Rightarrow> JStr '''') g)"
    and "b \<in> set (match_service_rule (case map_of ckvs ''id'' of Some v \<Rightarrow> v | None \<Rightarrow> JStr '''') g)"
  shows "\<exists>e\<in>set (g_edges g'). edge_src e = a \<and> edge_dst e = b \<and> edge_reltype e = ''RELATED_TO'' \<and>
           edge_type e = (case map_of ckvs ''type'' of Some t \<Rightarrow> t | None \<Rightarrow> JStr ''RELATED'')"
proof -
  from assms(3) obtain pre post where cs: "cs = pre @ JObj ckvs # post"
    by (auto simp: in_set_conv_decomp)
  from assms(1) create_relationships_obj[OF assms(2)]
  have run: "connections_loop (JObj kvs) (pre @ JObj ckvs # post) g = Inr g'"
    by (simp add: cs)
  then obtain g1 where g1: "connections_loop (JObj kvs) pre g = Inr g1"
    and rest: "connections_loop (JObj kvs) (JObj ckvs # post) g1 = Inr g'"
    unfolding connections_loop_append[of "JObj kvs" pre "JObj ckvs # post" g]
    by (cases "connections_loop (JObj kvs) pre g") simp_all
  let ?f = "field_or (JObj kvs) ''id'' (JStr '''')"
  let ?t = "field_or (JObj ckvs) ''id'' (JStr '''')"
  let ?ty = "field_or (JObj ckvs) ''type'' (JStr ''RELATED'')"
  from rest obtain g2 where q: "run_relationship_query ?f ?t ?ty g1 = Inr g2"
    and post: "connections_loop (JObj kvs) post g2 = Inr g'"
    unfolding connections_loop_step
    by (cases "run_relationship_query ?f ?t ?ty g1") simp_all
  from connections_loop_nodes[OF g1] have n1: "g_nodes g1 = g_nodes g" by simp
  from assms(4) have a: "a \<in> set (match_service_rule ?f g1)"
    unfolding match_service_rule_cong[OF n1] by (simp add: field_or_def)
  from assms(5) have b: "b \<in> set (match_service_rule ?t g1)"
    unfolding match_service_rule_cong[OF n1] by (simp add: field_or_def)
  from run_relationship_query_edge[OF q a b] obtain e where
    e: "e \<in> set (g_edges g2)" "edge_src e = a \<and> edge_dst e = b \<and>
           edge_reltype e = ''RELATED_TO'' \<and> edge_type e = ?ty"
    by blast
  from connections_loop_nodes[OF post] e(1) have "e \<in> set (g_edges g')" by blast
  moreover have "?ty = (case map_of ckvs ''type'' of Some t \<Rightarrow> t | None \<Rightarrow> JStr ''RELATED'')"
    by (simp add: field_or_def)
  ultimately show ?thesis using e(2) by auto
qed

lemma dangling_record_run:
  "create_relationships
     (JObj [(''id'', JStr ''1''),
           (''connections'',
            JList [JObj [(''id'', JStr ''9''), (''type'', JStr ''NEXT'')],
                   JObj [(''id'', JStr ''2'')]])]) sample_graph =
   Inr (sample_graph\<lparr>g_edges :=
          [\<lparr>edge_src = 0, edge_dst = 1, edge_reltype = ''RELATED_TO'', edge_type = JStr ''RELATED''\<rparr>]\<rparr>)"
  by code_simp

lemma anonymous_record_run:
  "create_relationships (JObj [(''connections'', JList [JObj []])]) anonymous_graph =
   Inr (anonymous_graph\<lparr>g_edges :=
          [\<lparr>edge_src = 0, edge_dst = 0, edge_reltype = ''RELATED_TO'', edge_type = JStr ''RELATED''\<rparr>]\<rparr>)"
  by code_simp

theorem missing_type_and_id_defaults_witness:
  "create_relationships dangling_record sample_graph =
     Inr (sample_graph\<lparr>g_edges :=
          [\<lparr>edge_src = 0, edge_dst = 1, edge_reltype = ''RELATED_TO'', edge_type = JStr ''RELATED''\<rparr>]\<rparr>) \<and>
   (\<exists>e\<in>set (g_edges (sample_graph\<lparr>g_edges :=
          [\<lparr>edge_src = 0, edge_dst = 1, edge_reltype = ''RELATED_TO'', edge_type = JStr ''RELATED''\<rparr>]\<rparr>)).
      edge_src e = 0 \<and> edge_dst e = 1 \<and> edge_reltype e = ''RELATED_TO'' \<and> edge_type e = JStr ''RELATED'') \<and>
   create_relationships anonymous_record anonymous_graph =
     Inr (anonymous_graph\<lparr>g_edges :=
          [\<lparr>edge_src = 0, edge_dst = 0, edge_reltype = ''RELATED_TO'', edge_type = JStr ''RELATED''\<rparr>]\<rparr>) \<and>
   0 \<in> set (match_service_rule (JStr '''') anonymous_graph) \<and>
   (\<exists>e\<in>set (g_edges (anonymous_graph\<lparr>g_edges :=
          [\<lparr>edge_src = 0, edge_dst = 0, edge_reltype = ''RELATED_TO'', edge_type = JStr ''RELATED''\<rparr>]\<rparr>)).
      edge_src e = 0 \<and> edge_dst e = 0 \<and> edge_reltype e = ''RELATED_TO'' \<and> edge_type e = JStr ''RELATED'')"
proof -
  have m1: "map_of [(''id'', JStr ''1''),
           (''connections'',
            JList [JObj [(''id'', JStr ''9''), (''type'', JStr ''NEXT'')],
                   JObj [(''id'', JStr ''2'')]])] ''connections'' =
        Some (JList [JObj [(''id'', JStr ''9''), (''type'', JStr ''NEXT'')], JObj [(''id'', JStr ''2'')]])"
    by simp
  have c1: "JObj [(''id'', JStr ''2'')] \<in>
      set [JObj [(''id'', JStr ''9''), (''type'', JStr ''NEXT'')], JObj [(''id'', JStr ''2'')]]"
    by simp
  have a1: "0 \<in> set (match_service_rule
      (case map_of [(''id'', JStr ''1''),
           (''connections'',
            JList [JObj [(''id'', JStr ''9''), (''type'', JStr ''NEXT'')],
                   JObj [(''id'', JStr ''2'')]])] ''id'' of Some v \<Rightarrow> v | None \<Rightarrow> JStr '''') sample_graph)"
    by code_simp
  have b1: "1 \<in> set (match_service_rule
      (case map_of [(''id'', JStr ''2'')] ''id'' of Some v \<Rightarrow> v | None \<Rightarrow> JStr '''') sample_graph)"
    by code_simp
  from missing_type_and_id_defaults[OF dangling_record_run m1 c1 a1 b1]
  have e1: "\<exists>e\<in>set (g_edges (sample_graph\<lparr>g_edges :=
          [\<lparr>edge_src = 0, edge_dst = 1, edge_reltype = ''RELATED_TO'', edge_type = JStr ''RELATED''\<rparr>]\<rparr>)).
      edge_src e = 0 \<and> edge_dst e = 1 \<and> edge_reltype e = ''RELATED_TO'' \<and> edge_type e = JStr ''RELATED''"
    by simp
  have m2: "map_of [(''connections'', JList [JObj []])] ''connections'' = Some (JList [JObj []])"
    by simp
  have c2: "JObj [] \<in> set [JObj []]" by simp
  have a2: "0 \<in> set (match_service_rule
      (case map_of [(''connections'', JList [JObj []])] ''id'' of Some v \<Rightarrow> v | None \<Rightarrow> JStr '''') anonymous_graph)"
    by code_simp
  have b2: "0 \<in> set (match_service_rule
      (case map_of [] ''id'' of Some v \<Rightarrow> v | None \<Rightarrow> JStr '''') anonymous_graph)"
    by code_simp
  from missing_type_and_id_defaults[OF anonymous_record_run m2 c2 a2 b2]
  have e2: "\<exists>e\<in>set (g_edges (anonymous_graph\<lparr>g_edges :=
          [\<lparr>edge_src = 0, edge_dst = 0, edge_reltype = ''RELATED_TO'', edge_type = JStr ''RELATED''\<rparr>]\<rparr>)).
      edge_src e = 0 \<and> edge_dst e = 0 \<and> edge_reltype e = ''RELATED_TO'' \<and> edge_type e = JStr ''RELATED''"
    by simp
  have r1: "create_relationships dangling_record sample_graph =
     Inr (sample_graph\<lparr>g_edges :=
          [\<lparr>edge_src = 0, edge_dst = 1, edge_reltype = ''RELATED_TO'', edge_type = JStr ''RELATED''\<rparr>]\<rparr>)"
    unfolding dangling_record_def by (rule dangling_record_run)
  have r2: "create_relationships anonymous_record anonymous_graph =
     Inr (anonymous_graph\<lparr>g_edges :=
          [\<lparr>edge_src = 0, edge_dst = 0, edge_reltype = ''RELATED_TO'', edge_type = JStr ''RELATED''\<rparr>]\<rparr>)"
    unfolding anonymous_record_def by (rule anonymous_record_run)
  have z: "0 \<in> set (match_service_rule (JStr '''') anonymous_graph)" by code_simp
  from r1 e1 r2 z e2 show ?thesis by (intro conjI)
qed

section \<open>Main block: properties\<close>

lemma try_block_error_events:
  assumes "snd (try_block ext data g) = Some e"
  shows "events (fst (try_block ext data g)) = []"
  using assms
  by (cases "upload_to_pinecone ext data"; cases "upload_to_neo4j ext data g"; cases "index_stats ext")
     (auto simp: try_block_def split: option.splits)

lemma try_block_ok_events:
  assumes "snd (try_block ext data g) = None"
  shows "filter is_error_printed (events (fst (try_block ext data g))) = [] \<and>
         count_list (events (fst (try_block ext data g))) DriverClosed = 0"
  using assms
  by (cases "upload_to_pinecone ext data"; cases "upload_to_neo4j ext data g"; cases "index_stats ext")
     (auto simp: try_block_def split: option.splits)

lemma main_events:
  "events (main ext data g) =
     events (fst (try_block ext data g)) @
     (case snd (try_block ext data g) of Some e \<Rightarrow> [ErrorPrinted e, TracebackPrinted e] | None \<Rightarrow> []) @
     [DriverClosed]"
  by (cases "try_block ext data g"; cases "snd (try_block ext data g)") (simp_all add: main_def)

lemma try_block_pinecone_error:
  assumes "snd (upload_to_pinecone ext data) = Some e"
  shows "snd (try_block ext data g) = Some e"
  using assms by (cases "upload_to_pinecone ext data") (simp add: try_block_def)

lemma try_block_neo4j_error:
  assumes "snd (upload_to_pinecone ext data) = None" and "snd (upload_to_neo4j ext data g) = Some e"
  shows "snd (try_block ext data g) = Some e"
  using assms
  by (cases "upload_to_pinecone ext data"; cases "upload_to_neo4j ext data g") (simp add: try_block_def)

text \<open>
  C8. In every run of the main block the driver is closed, once, as the last action,
  whether the \<^verbatim>\<open>try\<close> block ends normally or by an exception. An exception raised by
  \<^verbatim>\<open>upload_to_pinecone\<close> (embedding or vector upsert) or by \<^verbatim>\<open>upload_to_neo4j\<close> (graph
  write) leaves the \<^verbatim>\<open>try\<close> block, is printed once with its traceback by the handler,
  and the driver is closed after that; without an exception nothing is printed by the
  handler.
\<close>

theorem main_closes_driver:
  "last (events (main ext data g)) = DriverClosed \<and>
   count_list (events (main ext data g)) DriverClosed = 1 \<and>
   (\<forall>e. snd (try_block ext data g) = Some e \<longrightarrow>
      events (main ext data g) = [ErrorPrinted e, TracebackPrinted e, DriverClosed]) \<and>
   (snd (try_block ext data g) = None \<longrightarrow>
      filter is_error_printed (events (main ext data g)) = []) \<and>
   (\<forall>e. snd (upload_to_pinecone ext data) = Some e \<longrightarrow> snd (try_block ext data g) = Some e) \<and>
   (\<forall>e. snd (upload_to_pinecone ext data) = None \<and> snd (upload_to_neo4j ext data g) = Some e \<longrightarrow>
      snd (try_block ext data g) = Some e)"
proof -
  have a: "last (events (main ext data g)) = DriverClosed"
    unfolding main_events by simp
  have c: "\<forall>e. snd (try_block ext data g) = Some e \<longrightarrow>
      events (main ext data g) = [ErrorPrinted e, TracebackPrinted e, DriverClosed]"
    unfolding main_events using try_block_error_events[of ext data g] by simp
  have d: "snd (try_block ext data g) = None \<longrightarrow>
      filter is_error_printed (events (main ext data g)) = []"
    unfolding main_events using try_block_ok_events[of ext data g] by simp
  have b: "count_list (events (main ext data g)) DriverClosed = 1"
  proof (cases "snd (try_block ext data g)")
    case None
    with try_block_ok_events[of ext data g] show ?thesis
      unfolding main_events by simp
  next
    case (Some e)
    with c show ?thesis by simp
  qed
  have e: "\<forall>e. snd (upload_to_pinecone ext data) = Some e \<longrightarrow> snd (try_block ext data g) = Some e"
    using try_block_pinecone_error by blast
  have f: "\<forall>e. snd (upload_to_pinecone ext data) = None \<and> snd (upload_to_neo4j ext data g) = Some e \<longrightarrow>
      snd (try_block ext data g) = Some e"
    using try_block_neo4j_error by blast
  from a b c d e f show ?thesis by (intro conjI)
qed

lemma null_id_pinecone_ok: "snd (upload_to_pinecone sample_externals [null_id_record]) = None"
  by code_simp

lemma null_id_neo4j_error:
  "snd (upload_to_neo4j sample_externals [null_id_record] empty_graph) = Some Neo4jError"
  by code_simp

theorem main_closes_driver_witness:
  "snd (upload_to_pinecone sample_externals [null_id_record]) = None \<and>
   snd (upload_to_neo4j sample_externals [null_id_record] empty_graph) = Some Neo4jError \<and>
   snd (try_block sample_externals [null_id_record] empty_graph) = Some Neo4jError \<and>
   events (main sample_externals [null_id_record] empty_graph) =
     [ErrorPrinted Neo4jError, TracebackPrinted Neo4jError, DriverClosed]"
proof -
  note T = main_closes_driver[of sample_externals "[null_id_record]" empty_graph]
  from T null_id_pinecone_ok null_id_neo4j_error
  have t: "snd (try_block sample_externals [null_id_record] empty_graph) = Some Neo4jError"
    by blast
  with T have "events (main sample_externals [null_id_record] empty_graph) =
     [ErrorPrinted Neo4jError, TracebackPrinted Neo4jError, DriverClosed]"
    by blast
  with null_id_pinecone_ok null_id_neo4j_error t show ?thesis by (intro conjI)
qed

section \<open>Node upload: properties\<close>

lemma create_node_obj:
  assumes "create_node now item g = Inr g'"
  shows "\<exists>kvs. item = JObj kvs"
  using assms by (cases item) (simp_all add: create_node_def)

lemma match_service_rule_empty:
  "match_service_rule v g = [] \<longleftrightarrow> (\<forall>n\<in>set (g_nodes g). \<not> matches v n)"
  by (auto simp: match_service_rule_def filter_empty_conv all_set_conv_all_nth)

lemma run_node_query_Inr:
  assumes "run_node_query now vid vname vdesc vtype g = Inr g'"
  shows "vid \<noteq> JNull \<and> g_edges g' = g_edges g \<and>
     g_nodes g' =
       map (\<lambda>n. if matches vid n then set_node now vname vdesc vtype n else n)
         (g_nodes g @
          (if match_service_rule vid g = []
           then [\<lparr>n_labels = [''ServiceRule''], prop_id = vid, prop_name = JNull,
                  prop_description = JNull, prop_type = JNull, prop_created_at = None\<rparr>]
           else []))"
proof -
  from assms have ok: "vid \<noteq> JNull" "storable vid"
    by (auto simp: run_node_query_def merge_node_def split: if_splits)
  show ?thesis
  proof (cases "match_service_rule vid g = []")
    case True
    with assms ok show ?thesis
      by (auto simp: run_node_query_def merge_node_def split: if_splits)
  next
    case False
    with assms ok show ?thesis
      by (auto simp: run_node_query_def merge_node_def split: if_splits)
  qed
qed

lemma create_node_Inr:
  assumes "create_node now item g = Inr g'"
  shows "field_or item ''id'' (JStr '''') \<noteq> JNull \<and> g_edges g' = g_edges g \<and>
     g_nodes g' =
       map (node_update now item)
         (g_nodes g @
          (if match_service_rule (field_or item ''id'' (JStr '''')) g = []
           then [\<lparr>n_labels = [''ServiceRule''], prop_id = field_or item ''id'' (JStr ''''),
                  prop_name = JNull, prop_description = JNull, prop_type = JNull,
                  prop_created_at = None\<rparr>]
           else []))"
proof -
  from create_node_obj[OF assms] obtain kvs where item: "item = JObj kvs" by blast
  from assms have "run_node_query now (field_or item ''id'' (JStr '''')) (field_or item ''name'' (JStr ''''))
      (field_or item ''description'' (JStr '''')) (field_or item ''type'' (JStr '''')) g = Inr g'"
    unfolding item create_node_def py_get_field_or by simp
  from run_node_query_Inr[OF this] show ?thesis
    by (simp add: node_update_def cong: if_cong)
qed

text \<open>Whether the node query of a record is accepted does not depend on the store or the time.\<close>

lemma run_node_query_accepts:
  "isl (run_node_query now vid vname vdesc vtype g) = isl (run_node_query now' vid vname vdesc vtype h)"
  by (simp add: run_node_query_def merge_node_def)

lemma create_node_accepts:
  "isl (create_node now item g) = isl (create_node now' item h)"
proof (cases item)
  case (JObj kvs)
  show ?thesis
    unfolding JObj create_node_def py_get_field_or
    using run_node_query_accepts by simp
qed (simp_all add: create_node_def)

lemma node_update_keeps:
  "n_labels (node_update now item n) = n_labels n" "prop_id (node_update now item n) = prop_id n"
  by (simp_all add: node_update_def set_node_def)

lemma matches_node_update: "matches v (node_update now item n) = matches v n"
  by (simp add: matches_def has_label_def node_update_keeps)

lemma apply_updates_snoc:
  "apply_updates (txs @ [tx]) n = node_update (fst tx) (snd tx) (apply_updates txs n)"
  by (induction txs arbitrary: n) simp_all

lemma apply_updates_keeps:
  "n_labels (apply_updates txs n) = n_labels n \<and> prop_id (apply_updates txs n) = prop_id n"
  by (induction txs arbitrary: n) (simp_all add: node_update_keeps)

lemma matches_apply_updates: "matches v (apply_updates txs n) = matches v n"
  by (simp add: matches_def has_label_def apply_updates_keeps)

lemma settled_snoc:
  "settled (items @ [item]) n =
     (if matches (field_or item ''id'' (JStr '''')) n
      then prop_name n = field_or item ''name'' (JStr '''') \<and>
           prop_description n = field_or item ''description'' (JStr '''') \<and>
           prop_type n = field_or item ''type'' (JStr '''')
      else settled items n)"
  by (simp add: settled_def)

lemma settled_Nil: "settled [] n"
  by (simp add: settled_def)

text \<open>Writing the records again leaves a settled node as it was, but for the time.\<close>

lemma apply_updates_settled:
  assumes "settled (map snd txs) n"
  shows "without_time (apply_updates txs n) = without_time n"
  using assms
proof (induction txs rule: rev_induct)
  case Nil
  show ?case by simp
next
  case (snoc tx txs)
  let ?m = "apply_updates txs n"
  have k: "n_labels ?m = n_labels n" "prop_id ?m = prop_id n"
    using apply_updates_keeps[of txs n] by simp_all
  show ?case
  proof (cases "matches (field_or (snd tx) ''id'' (JStr '''')) n")
    case True
    with snoc.prems have f: "prop_name n = field_or (snd tx) ''name'' (JStr '''')"
      "prop_description n = field_or (snd tx) ''description'' (JStr '''')"
      "prop_type n = field_or (snd tx) ''type'' (JStr '''')"
      by (simp_all add: settled_snoc)
    from True have "matches (field_or (snd tx) ''id'' (JStr '''')) ?m"
      by (simp add: matches_apply_updates)
    then show ?thesis
      unfolding apply_updates_snoc
      by (simp add: node_update_def set_node_def without_time_def k f)
  next
    case False
    with snoc.prems have "settled (map snd txs) n" by (simp add: settled_snoc)
    from snoc.IH[OF this] have ih: "without_time ?m = without_time n" .
    from False have "\<not> matches (field_or (snd tx) ''id'' (JStr '''')) ?m"
      by (simp add: matches_apply_updates)
    then show ?thesis
      unfolding apply_updates_snoc using ih by (simp add: node_update_def)
  qed
qed

lemma write_node_tx:
  assumes "write_transaction ext (CreateNode item) s = (s', None)"
  shows "create_node (clock ext (length (txlog s))) item (store s) = Inr (store s')"
  using assms
  by (cases "create_node (clock ext (length (txlog s))) item (store s)")
     (auto simp: write_transaction_def run_txfn_def)

lemma write_node_tx_accepted:
  assumes "create_node (clock ext (length (txlog s))) item (store s) = Inr g"
  shows "\<exists>s'. write_transaction ext (CreateNode item) s = (s', None)"
  using assms by (simp add: write_transaction_def run_txfn_def)

lemma create_nodes_loop_Cons_None:
  assumes "create_nodes_loop ext (item # rest) s = (s', None)"
  shows "\<exists>s1. write_transaction ext (CreateNode item) s = (s1, None) \<and>
              create_nodes_loop ext rest s1 = (s', None)"
  using assms
  by (cases "write_transaction ext (CreateNode item) s") (auto split: option.splits)

lemma create_nodes_loop_append:
  "create_nodes_loop ext (xs @ ys) s =
     (case create_nodes_loop ext xs s of
        (s1, Some e) \<Rightarrow> (s1, Some e)
      | (s1, None) \<Rightarrow> create_nodes_loop ext ys s1)"
  by (induction xs arbitrary: s) (simp_all split: prod.splits option.splits)

lemma create_nodes_loop_snoc_None:
  assumes "create_nodes_loop ext (items @ [item]) s = (s', None)"
  shows "\<exists>s1. create_nodes_loop ext items s = (s1, None) \<and>
              write_transaction ext (CreateNode item) s1 = (s', None)"
proof -
  obtain s1 r1 where l: "create_nodes_loop ext items s = (s1, r1)"
    by (cases "create_nodes_loop ext items s") auto
  with assms have r1: "r1 = None"
    unfolding create_nodes_loop_append by (cases r1) simp_all
  with assms l have "create_nodes_loop ext [item] s1 = (s', None)"
    unfolding create_nodes_loop_append by simp
  then have "write_transaction ext (CreateNode item) s1 = (s', None)"
    by (cases "write_transaction ext (CreateNode item) s1") (auto split: option.splits)
  with l r1 show ?thesis by blast
qed

text \<open>After the node loop every node is settled for the records written.\<close>

lemma create_nodes_loop_settled:
  assumes "create_nodes_loop ext items s = (s', None)"
  shows "\<forall>n\<in>set (g_nodes (store s')). settled items n"
  using assms
proof (induction items arbitrary: s' rule: rev_induct)
  case Nil
  show ?case by (simp add: settled_Nil)
next
  case (snoc item items)
  from create_nodes_loop_snoc_None[OF snoc.prems] obtain s1 where
    l: "create_nodes_loop ext items s = (s1, None)"
    and w: "write_transaction ext (CreateNode item) s1 = (s', None)"
    by blast
  let ?now = "clock ext (length (txlog s1))"
  let ?vid = "field_or item ''id'' (JStr '''')"
  let ?blank = "\<lparr>n_labels = [''ServiceRule''], prop_id = ?vid,
                  prop_name = JNull, prop_description = JNull, prop_type = JNull,
                  prop_created_at = None\<rparr>"
  from create_node_Inr[OF write_node_tx[OF w]] have vid: "?vid \<noteq> JNull"
    and nodes: "g_nodes (store s') =
       map (node_update ?now item)
         (g_nodes (store s1) @ (if match_service_rule ?vid (store s1) = [] then [?blank] else []))"
    by simp_all
  from vid have blank: "matches ?vid ?blank"
    by (simp add: matches_def has_label_def)
  show ?case
  proof
    fix n' assume "n' \<in> set (g_nodes (store s'))"
    with nodes obtain n where n': "n' = node_update ?now item n"
      and n: "n \<in> set (g_nodes (store s1)) \<or> n = ?blank"
      by (auto split: if_splits)
    show "settled (items @ [item]) n'"
    proof (cases "matches ?vid n")
      case True
      then have m: "matches ?vid n'"
        unfolding n' by (simp add: matches_node_update)
      from True have f: "prop_name n' = field_or item ''name'' (JStr '''') \<and>
           prop_description n' = field_or item ''description'' (JStr '''') \<and>
           prop_type n' = field_or item ''type'' (JStr '''')"
        unfolding n' by (simp add: node_update_def set_node_def)
      from m f show ?thesis unfolding settled_snoc by simp
    next
      case False
      with n blank have "n \<in> set (g_nodes (store s1))" by auto
      with snoc.IH[OF l] have st: "settled items n" by blast
      from False have same: "n' = n"
        unfolding n' by (simp add: node_update_def)
      from False st show ?thesis unfolding settled_snoc same by simp
    qed
  qed
qed

lemma create_node_present:
  assumes "create_node now item g = Inr g'"
  shows "match_service_rule (field_or item ''id'' (JStr '''')) g' \<noteq> [] \<and>
         (\<forall>v. match_service_rule v g \<noteq> [] \<longrightarrow> match_service_rule v g' \<noteq> [])"
proof -
  let ?vid = "field_or item ''id'' (JStr '''')"
  let ?blank = "\<lparr>n_labels = [''ServiceRule''], prop_id = ?vid,
                  prop_name = JNull, prop_description = JNull, prop_type = JNull,
                  prop_created_at = None\<rparr>"
  from create_node_Inr[OF assms] have vid: "?vid \<noteq> JNull"
    and nodes: "g_nodes g' =
       map (node_update now item)
         (g_nodes g @ (if match_service_rule ?vid g = [] then [?blank] else []))"
    by simp_all
  from vid have blank: "matches ?vid ?blank"
    by (simp add: matches_def has_label_def)
  have keep: "\<forall>v. match_service_rule v g \<noteq> [] \<longrightarrow> match_service_rule v g' \<noteq> []"
  proof (intro allI impI)
    fix v assume "match_service_rule v g \<noteq> []"
    then obtain n where n: "n \<in> set (g_nodes g)" "matches v n"
      unfolding match_service_rule_empty by blast
    from n(1) have "node_update now item n \<in> set (g_nodes g')"
      unfolding nodes by simp
    moreover from n(2) have "matches v (node_update now item n)"
      by (simp add: matches_node_update)
    ultimately show "match_service_rule v g' \<noteq> []"
      unfolding match_service_rule_empty by blast
  qed
  have "match_service_rule ?vid g' \<noteq> []"
  proof (cases "match_service_rule ?vid g = []")
    case True
    then have "node_update now item ?blank \<in> set (g_nodes g')"
      unfolding nodes by simp
    moreover from blank have "matches ?vid (node_update now item ?blank)"
      by (simp only: matches_node_update)
    ultimately show ?thesis
      unfolding match_service_rule_empty[of ?vid g'] by blast
  next
    case False
    with keep show ?thesis by blast
  qed
  with keep show ?thesis by blast
qed

lemma create_nodes_loop_present:
  assumes "create_nodes_loop ext items s = (s', None)"
  shows "(\<forall>item\<in>set items. match_service_rule (field_or item ''id'' (JStr '''')) (store s') \<noteq> []) \<and>
         (\<forall>v. match_service_rule v (store s) \<noteq> [] \<longrightarrow> match_service_rule v (store s') \<noteq> [])"
  using assms
proof (induction items arbitrary: s)
  case Nil
  then show ?case by simp
next
  case (Cons item rest)
  from create_nodes_loop_Cons_None[OF Cons.prems] obtain s1 where
    w: "write_transaction ext (CreateNode item) s = (s1, None)"
    and l: "create_nodes_loop ext rest s1 = (s', None)"
    by blast
  from create_node_present[OF write_node_tx[OF w]] Cons.IH[OF l]
  show ?case by auto
qed

text \<open>
  When every record already has its node, the node loop creates nothing: it rewrites the
  nodes in place and leaves the edges.
\<close>

lemma create_nodes_loop_rewrites:
  assumes "create_nodes_loop ext items s = (s', None)"
    and "\<forall>item\<in>set items. match_service_rule (field_or item ''id'' (JStr '''')) (store s) \<noteq> []"
  shows "\<exists>txs. map snd txs = items \<and>
           g_nodes (store s') = map (apply_updates txs) (g_nodes (store s)) \<and>
           g_edges (store s') = g_edges (store s)"
  using assms
proof (induction items arbitrary: s)
  case Nil
  then show ?case by (intro exI[of _ "[]"]) simp
next
  case (Cons item rest)
  from create_nodes_loop_Cons_None[OF Cons.prems(1)] obtain s1 where
    w: "write_transaction ext (CreateNode item) s = (s1, None)"
    and l: "create_nodes_loop ext rest s1 = (s', None)"
    by blast
  let ?now = "clock ext (length (txlog s))"
  from Cons.prems(2) have here: "match_service_rule (field_or item ''id'' (JStr '''')) (store s) \<noteq> []"
    by simp
  from create_node_Inr[OF write_node_tx[OF w]] here
  have nodes1: "g_nodes (store s1) = map (node_update ?now item) (g_nodes (store s))"
    and edges1: "g_edges (store s1) = g_edges (store s)"
    by simp_all
  from create_node_present[OF write_node_tx[OF w]] Cons.prems(2)
  have "\<forall>item\<in>set rest. match_service_rule (field_or item ''id'' (JStr '''')) (store s1) \<noteq> []"
    by simp
  from Cons.IH[OF l this] obtain txs where
    t: "map snd txs = rest" "g_nodes (store s') = map (apply_updates txs) (g_nodes (store s1))"
       "g_edges (store s') = g_edges (store s1)"
    by blast
  show ?case
    by (rule exI[of _ "(?now, item) # txs"]) (simp add: t nodes1 edges1)
qed

text \<open>A second node loop over records that a first one accepted is accepted too.\<close>

lemma create_nodes_loop_accepted_again:
  assumes "create_nodes_loop ext items s = (s', None)"
  shows "\<exists>t'. create_nodes_loop ext' items t = (t', None)"
  using assms
proof (induction items arbitrary: s t)
  case Nil
  show ?case by simp
next
  case (Cons item rest)
  from create_nodes_loop_Cons_None[OF Cons.prems] obtain s1 where
    w: "write_transaction ext (CreateNode item) s = (s1, None)"
    and l: "create_nodes_loop ext rest s1 = (s', None)"
    by blast
  from write_node_tx[OF w]
  have "\<not> isl (create_node (clock ext (length (txlog s))) item (store s))" by simp
  then have "\<not> isl (create_node (clock ext' (length (txlog t))) item (store t))"
    using create_node_accepts by blast
  then obtain g where "create_node (clock ext' (length (txlog t))) item (store t) = Inr g"
    by (cases "create_node (clock ext' (length (txlog t))) item (store t)") simp_all
  from write_node_tx_accepted[OF this] obtain t1 where
    w': "write_transaction ext' (CreateNode item) t = (t1, None)" by blast
  from Cons.IH[OF l, of t1] obtain t' where "create_nodes_loop ext' rest t1 = (t', None)"
    by blast
  with w' show ?case by simp
qed

lemma service_rule_ids_node_update:
  "map prop_id (filter (has_label ''ServiceRule'') (map (node_update now item) ns)) =
   map prop_id (filter (has_label ''ServiceRule'') ns)"
  by (induction ns) (simp_all add: has_label_def node_update_keeps)

lemma create_node_unique_ids:
  assumes "create_node now item g = Inr g'" and "unique_ids g"
  shows "unique_ids g'"
proof -
  let ?vid = "field_or item ''id'' (JStr '''')"
  let ?blank = "\<lparr>n_labels = [''ServiceRule''], prop_id = ?vid,
                  prop_name = JNull, prop_description = JNull, prop_type = JNull,
                  prop_created_at = None\<rparr>"
  from create_node_Inr[OF assms(1)] have vid: "?vid \<noteq> JNull"
    and nodes: "g_nodes g' =
       map (node_update now item)
         (g_nodes g @ (if match_service_rule ?vid g = [] then [?blank] else []))"
    by simp_all
  show ?thesis
  proof (cases "match_service_rule ?vid g = []")
    case False
    with assms(2) show ?thesis
      unfolding unique_ids_def nodes service_rule_ids_node_update by simp
  next
    case True
    then have "\<forall>n\<in>set (g_nodes g). \<not> matches ?vid n"
      by (simp add: match_service_rule_empty)
    with vid have "?vid \<notin> set (map prop_id (filter (has_label ''ServiceRule'') (g_nodes g)))"
      by (auto simp: matches_def)
    with assms(2) True show ?thesis
      unfolding unique_ids_def nodes service_rule_ids_node_update
      by (simp add: has_label_def)
  qed
qed

lemma create_nodes_loop_unique_ids:
  assumes "create_nodes_loop ext items s = (s', None)" and "unique_ids (store s)"
  shows "unique_ids (store s')"
  using assms
proof (induction items arbitrary: s)
  case Nil
  then show ?case by simp
next
  case (Cons item rest)
  from create_nodes_loop_Cons_None[OF Cons.prems(1)] obtain s1 where
    w: "write_transaction ext (CreateNode item) s = (s1, None)"
    and l: "create_nodes_loop ext rest s1 = (s', None)"
    by blast
  from create_node_unique_ids[OF write_node_tx[OF w] Cons.prems(2)] have "unique_ids (store s1)" .
  from Cons.IH[OF l this] show ?case .
qed

lemma length_filter_indices:
  "length (filter (\<lambda>i. P (xs ! i)) [0..<length xs]) = length (filter P xs)"
proof (induction xs rule: rev_induct)
  case Nil
  show ?case by simp
next
  case (snoc x xs)
  have "filter (\<lambda>i. P ((xs @ [x]) ! i)) [0..<length xs] = filter (\<lambda>i. P (xs ! i)) [0..<length xs]"
    by (rule filter_cong) (simp_all add: nth_append)
  with snoc show ?case by simp
qed

lemma distinct_count_le_1:
  "distinct ys \<Longrightarrow> length (filter (\<lambda>y. y = v) ys) \<le> 1"
  by (induction ys) (auto simp: filter_empty_conv)

lemma matches_filter_le:
  "length (filter (matches v) ns) \<le>
   length (filter (\<lambda>n. prop_id n = v) (filter (has_label ''ServiceRule'') ns))"
  by (induction ns) (auto simp: matches_def)

lemma unique_ids_at_most_one:
  assumes "unique_ids g"
  shows "length (match_service_rule v g) \<le> 1"
proof -
  have "length (match_service_rule v g) = length (filter (matches v) (g_nodes g))"
    unfolding match_service_rule_def by (rule length_filter_indices)
  also have "\<dots> \<le> length (filter (\<lambda>n. prop_id n = v) (filter (has_label ''ServiceRule'') (g_nodes g)))"
    by (rule matches_filter_le)
  finally have "length (match_service_rule v g) \<le>
      length (filter (\<lambda>y. y = v) (map prop_id (filter (has_label ''ServiceRule'') (g_nodes g))))"
    by (simp add: filter_map comp_def)
  also have "\<dots> \<le> 1"
    using assms unfolding unique_ids_def by (rule distinct_count_le_1)
  finally show ?thesis .
qed

text \<open>
  C5 (as amended). When a first node loop over the records raises nothing, a second node
  loop over the same records raises nothing either, creates no node, leaves the edges,
  and leaves every node with the labels, id, name, description and type it had after the
  first loop; only the time of writing is new. When no two nodes of the store shared an
  id before, none do afterwards, and the id of every record belongs to exactly one
  \<^verbatim>\<open>ServiceRule\<close> node.
\<close>

theorem node_upload_idempotent:
  assumes "create_nodes_loop ext data s = (s1, None)"
    and "create_nodes_loop ext' data s1 = (s2, r2)"
  shows "r2 = None \<and>
     length (g_nodes (store s2)) = length (g_nodes (store s1)) \<and>
     map without_time (g_nodes (store s2)) = map without_time (g_nodes (store s1)) \<and>
     g_edges (store s2) = g_edges (store s1) \<and>
     (unique_ids (store s) \<longrightarrow>
        unique_ids (store s2) \<and>
        (\<forall>item\<in>set data.
           length (match_service_rule (field_or item ''id'' (JStr '''')) (store s2)) = 1))"
proof -
  from create_nodes_loop_accepted_again[OF assms(1), of ext' s1] assms(2)
  have r2: "r2 = None" and second: "create_nodes_loop ext' data s1 = (s2, None)"
    by auto
  from create_nodes_loop_present[OF assms(1)]
  have present: "\<forall>item\<in>set data. match_service_rule (field_or item ''id'' (JStr '''')) (store s1) \<noteq> []"
    by blast
  from create_nodes_loop_rewrites[OF second present] obtain txs where
    txs: "map snd txs = data"
    and nodes: "g_nodes (store s2) = map (apply_updates txs) (g_nodes (store s1))"
    and edges: "g_edges (store s2) = g_edges (store s1)"
    by blast
  from create_nodes_loop_settled[OF assms(1)] txs
  have "\<forall>n\<in>set (g_nodes (store s1)). settled (map snd txs) n" by simp
  then have same: "map without_time (g_nodes (store s2)) = map without_time (g_nodes (store s1))"
    unfolding nodes by (simp add: apply_updates_settled)
  from nodes have len: "length (g_nodes (store s2)) = length (g_nodes (store s1))" by simp
  have uniq: "unique_ids (store s) \<longrightarrow>
        unique_ids (store s2) \<and>
        (\<forall>item\<in>set data.
           length (match_service_rule (field_or item ''id'' (JStr '''')) (store s2)) = 1)"
  proof
    assume u: "unique_ids (store s)"
    from create_nodes_loop_unique_ids[OF assms(1) u] have "unique_ids (store s1)" .
    from create_nodes_loop_unique_ids[OF second this] have u2: "unique_ids (store s2)" .
    have "\<forall>item\<in>set data.
           length (match_service_rule (field_or item ''id'' (JStr '''')) (store s2)) = 1"
    proof
      fix item assume "item \<in> set data"
      with create_nodes_loop_present[OF second]
      have "match_service_rule (field_or item ''id'' (JStr '''')) (store s2) \<noteq> []" by blast
      then have "length (match_service_rule (field_or item ''id'' (JStr '''')) (store s2)) \<noteq> 0"
        by simp
      with unique_ids_at_most_one[OF u2, of "field_or item ''id'' (JStr '''')"]
      show "length (match_service_rule (field_or item ''id'' (JStr '''')) (store s2)) = 1"
        by linarith
    qed
    with u2 show "unique_ids (store s2) \<and>
        (\<forall>item\<in>set data.
           length (match_service_rule (field_or item ''id'' (JStr '''')) (store s2)) = 1)"
      by (rule conjI)
  qed
  from r2 len same edges uniq show ?thesis by (intro conjI)
qed

lemma first_node_loop_ok:
  "snd (create_nodes_loop sample_externals sample_data fresh_session) = None"
  by code_simp

lemma fresh_session_unique: "unique_ids (store fresh_session)"
  by code_simp

lemma sample_first_id: "field_or (sample_data ! 0) ''id'' (JStr '''') = JStr ''1''"
  by code_simp

theorem node_upload_idempotent_witness:
  "snd (create_nodes_loop sample_externals sample_data fresh_session) = None \<and>
   snd (create_nodes_loop sample_externals sample_data
          (fst (create_nodes_loop sample_externals sample_data fresh_session))) = None \<and>
   map without_time (g_nodes (store (fst (create_nodes_loop sample_externals sample_data
          (fst (create_nodes_loop sample_externals sample_data fresh_session)))))) =
   map without_time (g_nodes (store (fst (create_nodes_loop sample_externals sample_data fresh_session)))) \<and>
   unique_ids (store fresh_session) \<and>
   length (match_service_rule (JStr ''1'') (store (fst (create_nodes_loop sample_externals sample_data
          (fst (create_nodes_loop sample_externals sample_data fresh_session)))))) = 1"
proof -
  let ?F = "create_nodes_loop sample_externals sample_data fresh_session"
  let ?S = "create_nodes_loop sample_externals sample_data (fst ?F)"
  have a1: "?F = (fst ?F, None)"
    using first_node_loop_ok by (simp add: prod_eq_iff)
  have a2: "?S = (fst ?S, snd ?S)" by simp
  note T = node_upload_idempotent[OF a1 a2]
  from T have r: "snd ?S = None" by blast
  from T have m: "map without_time (g_nodes (store (fst ?S))) = map without_time (g_nodes (store (fst ?F)))"
    by blast
  have mem: "sample_data ! 0 \<in> set sample_data" by (simp add: sample_data_def)
  from T fresh_session_unique mem
  have "length (match_service_rule (field_or (sample_data ! 0) ''id'' (JStr '''')) (store (fst ?S))) = 1"
    by blast
  then have o: "length (match_service_rule (JStr ''1'') (store (fst ?S))) = 1"
    unfolding sample_first_id .
  from first_node_loop_ok r m fresh_session_unique o show ?thesis by (intro conjI)
qed

text \<open>
  The time of writing is not kept: with a clock that counts transactions, the two nodes
  are written at times 0 and 1 by the first loop and at times 2 and 3 by the second, so
  the nodes after two loops are not the nodes after one.
\<close>

theorem node_upload_rewrites_created_at:
  "map prop_created_at (g_nodes (store (fst (create_nodes_loop sample_externals sample_data fresh_session)))) =
     [Some 0, Some 1] \<and>
   map prop_created_at (g_nodes (store (fst (create_nodes_loop sample_externals sample_data
          (fst (create_nodes_loop sample_externals sample_data fresh_session)))))) =
     [Some 2, Some 3] \<and>
   g_nodes (store (fst (create_nodes_loop sample_externals sample_data
          (fst (create_nodes_loop sample_externals sample_data fresh_session))))) \<noteq>
   g_nodes (store (fst (create_nodes_loop sample_externals sample_data fresh_session)))"
  by code_simp

section \<open>Verification script: properties\<close>

lemma create_node_labels:
  assumes "create_node now item g = Inr g'"
    and "\<forall>n\<in>set (g_nodes g). n_labels n = [''ServiceRule'']"
  shows "\<forall>n\<in>set (g_nodes g'). n_labels n = [''ServiceRule'']"
proof -
  let ?blank = "\<lparr>n_labels = [''ServiceRule''], prop_id = field_or item ''id'' (JStr ''''),
                  prop_name = JNull, prop_description = JNull, prop_type = JNull,
                  prop_created_at = None\<rparr>"
  from create_node_Inr[OF assms(1)] have
    nodes: "g_nodes g' = map (node_update now item)
       (g_nodes g @ (if match_service_rule (field_or item ''id'' (JStr '''')) g = [] then [?blank] else []))"
    by simp
  show ?thesis
  proof
    fix n' assume "n' \<in> set (g_nodes g')"
    then obtain n where n': "n' = node_update now item n"
      and n: "n \<in> set (g_nodes g) \<or> n = ?blank"
      unfolding nodes by (auto split: if_splits)
    from n assms(2) have "n_labels n = [''ServiceRule'']" by auto
    then show "n_labels n' = [''ServiceRule'']"
      unfolding n' by (simp add: node_update_keeps)
  qed
qed

lemma create_relationships_nodes:
  assumes "create_relationships item g = Inr g'"
  shows "g_nodes g' = g_nodes g"
proof (cases "py_in ''connections'' item")
  case (Inl e)
  with assms show ?thesis by (simp add: create_relationships_def)
next
  case present: (Inr present)
  show ?thesis
  proof (cases present)
    case False
    with assms present show ?thesis by (simp add: create_relationships_def)
  next
    case True
    with assms present obtain cs conns where
      "connections_loop item conns g = Inr g'"
      by (cases "py_getitem item ''connections''"; cases "py_iter (projr (py_getitem item ''connections''))")
         (auto simp: create_relationships_def)
    from connections_loop_nodes[OF this] show ?thesis by simp
  qed
qed

lemma write_transaction_labels:
  assumes "write_transaction ext fn s = (s', r)"
    and "\<forall>n\<in>set (g_nodes (store s)). n_labels n = [''ServiceRule'']"
  shows "\<forall>n\<in>set (g_nodes (store s')). n_labels n = [''ServiceRule'']"
proof (cases "run_txfn ext s fn")
  case (Inl e)
  with assms show ?thesis by (auto simp: write_transaction_def)
next
  case (Inr g)
  with assms(1) have s': "store s' = g" by (auto simp: write_transaction_def)
  show ?thesis
  proof (cases fn)
    case ClearDatabase
    with Inr show ?thesis unfolding s' by (auto simp: run_txfn_def clear_database_def)
  next
    case (CreateNode item)
    with Inr have "create_node (clock ext (length (txlog s))) item (store s) = Inr g"
      by (simp add: run_txfn_def)
    from create_node_labels[OF this assms(2)] show ?thesis unfolding s' .
  next
    case (CreateRelationships item)
    with Inr have "create_relationships item (store s) = Inr g"
      by (simp add: run_txfn_def)
    from create_relationships_nodes[OF this] assms(2) show ?thesis unfolding s' by simp
  qed
qed

lemma create_nodes_loop_labels:
  assumes "create_nodes_loop ext items s = (s', r)"
    and "\<forall>n\<in>set (g_nodes (store s)). n_labels n = [''ServiceRule'']"
  shows "\<forall>n\<in>set (g_nodes (store s')). n_labels n = [''ServiceRule'']"
  using assms
proof (induction items arbitrary: s)
  case Nil
  then show ?case by simp
next
  case (Cons item rest)
  obtain s1 r1 where w: "write_transaction ext (CreateNode item) s = (s1, r1)"
    by (cases "write_transaction ext (CreateNode item) s") auto
  from write_transaction_labels[OF w Cons.prems(2)]
  have l1: "\<forall>n\<in>set (g_nodes (store s1)). n_labels n = [''ServiceRule'']" .
  show ?case
  proof (cases r1)
    case None
    with Cons.prems(1) w have "create_nodes_loop ext rest s1 = (s', r)" by simp
    from Cons.IH[OF this l1] show ?thesis .
  next
    case (Some e)
    with Cons.prems(1) w have "s' = s1" by simp
    with l1 show ?thesis by simp
  qed
qed

lemma create_relationships_loop_labels:
  assumes "create_relationships_loop ext items s = (s', r)"
    and "\<forall>n\<in>set (g_nodes (store s)). n_labels n = [''ServiceRule'']"
  shows "\<forall>n\<in>set (g_nodes (store s')). n_labels n = [''ServiceRule'']"
  using assms
proof (induction items arbitrary: s)
  case Nil
  then show ?case by simp
next
  case (Cons item rest)
  obtain s1 r1 where w: "write_transaction ext (CreateRelationships item) s = (s1, r1)"
    by (cases "write_transaction ext (CreateRelationships item) s") auto
  from write_transaction_labels[OF w Cons.prems(2)]
  have l1: "\<forall>n\<in>set (g_nodes (store s1)). n_labels n = [''ServiceRule'']" .
  show ?case
  proof (cases r1)
    case None
    with Cons.prems(1) w have "create_relationships_loop ext rest s1 = (s', r)" by simp
    from Cons.IH[OF this l1] show ?thesis .
  next
    case (Some e)
    with Cons.prems(1) w have "s' = s1" by simp
    with l1 show ?thesis by simp
  qed
qed

text \<open>
  Every node that \<^verbatim>\<open>upload_to_neo4j\<close> leaves in the store has the one label
  \<^verbatim>\<open>ServiceRule\<close>, so the breakdown of the verification script, which reads the label
  \<^verbatim>\<open>Entity\<close>, is empty after every upload.
\<close>

lemma upload_to_neo4j_labels:
  "\<forall>n\<in>set (g_nodes (store (fst (upload_to_neo4j ext data g)))). n_labels n = [''ServiceRule'']"
proof -
  obtain s1 where c: "write_transaction ext ClearDatabase \<lparr>store = g, txlog = []\<rparr> = (s1, None)"
    and l1: "\<forall>n\<in>set (g_nodes (store s1)). n_labels n = [''ServiceRule'']"
    by (simp add: write_transaction_def run_txfn_def clear_database_def)
  obtain s2 r2 where n: "create_nodes_loop ext data s1 = (s2, r2)"
    by (cases "create_nodes_loop ext data s1") auto
  from create_nodes_loop_labels[OF n l1]
  have l2: "\<forall>n\<in>set (g_nodes (store s2)). n_labels n = [''ServiceRule'']" .
  show ?thesis
  proof (cases r2)
    case (Some e)
    with c n have "fst (upload_to_neo4j ext data g) = s2" by (simp add: upload_to_neo4j_def)
    with l2 show ?thesis by simp
  next
    case None
    obtain s3 r3 where r: "create_relationships_loop ext data s2 = (s3, r3)"
      by (cases "create_relationships_loop ext data s2") auto
    with None c n have "fst (upload_to_neo4j ext data g) = s3" by (simp add: upload_to_neo4j_def)
    with create_relationships_loop_labels[OF r l2] show ?thesis by simp
  qed
qed

lemma verify_upload_breakdown_empty:
  "node_type_rows (verify_upload (store (fst (upload_to_neo4j ext data g)))) = []"
proof -
  have "filter (has_label ''Entity'') (g_nodes (store (fst (upload_to_neo4j ext data g)))) = []"
    using upload_to_neo4j_labels[of ext data g] by (auto simp: filter_empty_conv has_label_def)
  then show ?thesis
    by (simp add: verify_upload_def node_types_def type_counts_def)
qed

text \<open>
  C9. On the store left by the upload of the two sample records the verification script
  reports two nodes and one relationship, and no row at all in its breakdown by type:
  its query reads the nodes labelled \<^verbatim>\<open>Entity\<close>, and the upload labels every node
  \<^verbatim>\<open>ServiceRule\<close>. The same grouping over the label \<^verbatim>\<open>ServiceRule\<close> has the two rows
  the stored nodes call for.
\<close>

theorem verify_upload_misses_stored_types:
  "verify_upload (store (fst (upload_to_neo4j sample_externals sample_data empty_graph))) =
     \<lparr>total_nodes = 2, total_relationships = 1, node_type_rows = []\<rparr> \<and>
   type_counts ''ServiceRule'' (store (fst (upload_to_neo4j sample_externals sample_data empty_graph))) =
     [(JStr ''t1'', 1), (JStr ''t2'', 1)]"
  by code_simp

end
